theory Spec2Isabelle
  imports Main
begin

section \<open>Strings and character classes\<close>

text \<open>
  A Python \<^verbatim>\<open>str\<close> is modelled as a \<^typ>\<open>string\<close>; a \<^typ>\<open>char\<close> stands for a code
  point below 256.  On that range \<^verbatim>\<open>str.isspace\<close> (used by \<^verbatim>\<open>str.strip()\<close>) and the
  regular-expression class \<^verbatim>\<open>\s\<close> accept the same twelve code points, and \<^verbatim>\<open>\w\<close> accepts
  the alphanumeric code points and the underscore.
\<close>

definition isspace :: "char \<Rightarrow> bool" where
  "isspace c = (of_char c \<in> set [9, 10, 11, 12, 13, 28, 29, 30, 31, 32, 133, 160 :: nat])"

definition isword :: "char \<Rightarrow> bool" where
  "isword c =
     (let n = (of_char c :: nat) in
        (48 \<le> n \<and> n \<le> 57) \<or> (65 \<le> n \<and> n \<le> 90) \<or> n = 95 \<or> (97 \<le> n \<and> n \<le> 122)
        \<or> n \<in> set [170, 178, 179, 181, 185, 186, 188, 189, 190]
        \<or> (192 \<le> n \<and> n \<le> 214) \<or> (216 \<le> n \<and> n \<le> 246) \<or> 248 \<le> n)"

definition newline :: char where
  "newline = CHR 0x0A"

text \<open>
  \<^verbatim>\<open>s.strip()\<close>: leading and trailing whitespace removed.
\<close>

definition strip :: "string \<Rightarrow> string" where
  "strip s = rev (dropWhile isspace (rev (dropWhile isspace s)))"

text \<open>
  \<^verbatim>\<open>s.split(sep)\<close> for a one-character separator: one more piece than
  separators.
\<close>

fun split :: "char \<Rightarrow> string \<Rightarrow> string list" where
  "split sep [] = [[]]"
| "split sep (x # xs) =
     (if x = sep then [] # split sep xs
      else (case split sep xs of [] \<Rightarrow> [[x]] | p # ps \<Rightarrow> (x # p) # ps))"

text \<open>
  The file is opened with \<^verbatim>\<open>open(file_path, 'r')\<close>: text mode with universal newlines.
  Of the text of the file, a carriage return followed by a newline, and a carriage return
  alone, are each read as one newline.
\<close>

definition carriage_return :: char where
  "carriage_return = CHR 0x0D"

fun universal_newlines :: "string \<Rightarrow> string" where
  "universal_newlines [] = []"
| "universal_newlines [x] = [if x = carriage_return then newline else x]"
| "universal_newlines (x # y # ys) =
     (if x = carriage_return then
        (if y = newline then newline # universal_newlines ys
         else newline # universal_newlines (y # ys))
      else x # universal_newlines (y # ys))"

text \<open>
  The lines of a text whose line ends are newlines: the text is cut after every newline,
  and each line keeps its newline.
\<close>

fun cut_lines :: "string \<Rightarrow> string list" where
  "cut_lines [] = []"
| "cut_lines (x # xs) =
     (if x = newline then [x] # cut_lines xs
      else (case cut_lines xs of [] \<Rightarrow> [[x]] | l # ls \<Rightarrow> (x # l) # ls))"

text \<open>\<^verbatim>\<open>file.readlines()\<close> on the text of the file.\<close>

definition readlines :: "string \<Rightarrow> string list" where
  "readlines text = cut_lines (universal_newlines text)"

text \<open>
  \<^verbatim>\<open>t in s\<close> on two strings: \<open>t\<close> occurs in
  \<open>s\<close> as a contiguous substring.
\<close>

fun str_in :: "string \<Rightarrow> string \<Rightarrow> bool" where
  "str_in t [] = (t = [])"
| "str_in t (x # xs) = (take (length t) (x # xs) = t \<or> str_in t xs)"

section \<open>Regular expressions\<close>

text \<open>
  The patterns of the source use literals, the classes \<^verbatim>\<open>\s\<close> and \<^verbatim>\<open>.\<close>, the assertions
  \<^verbatim>\<open>^\<close>, \<^verbatim>\<open>$\<close> and \<^verbatim>\<open>\b\<close>, grouping, alternation and the quantifiers
  \<^verbatim>\<open>*\<close>, \<^verbatim>\<open>+\<close> and \<^verbatim>\<open>?\<close>.  No flag is given, so \<^verbatim>\<open>.\<close> excludes the newline, \<^verbatim>\<open>^\<close> holds
  at the start of the string only, and \<^verbatim>\<open>$\<close> holds at the end of the string and before a
  newline that ends the string.
\<close>

datatype regex =
    Eps
  | Chr char
  | Space
  | Dot
  | Bol
  | Eol
  | WordB
  | Seq regex regex
  | Alt regex regex
  | Star regex
  | Plus regex
  | Opt regex

text \<open>
  A matching position is the character before it (if any) together with the text that
  remains.
\<close>

type_synonym pos = "char option \<times> string"

definition one_char :: "(char \<Rightarrow> bool) \<Rightarrow> pos \<Rightarrow> pos list" where
  "one_char P st = (case snd st of [] \<Rightarrow> [] | x # xs \<Rightarrow> if P x then [(Some x, xs)] else [])"

definition at_boundary :: "pos \<Rightarrow> bool" where
  "at_boundary st =
     ((case fst st of None \<Rightarrow> False | Some c \<Rightarrow> isword c)
        \<noteq> (case snd st of [] \<Rightarrow> False | x # _ \<Rightarrow> isword x))"

text \<open>
  Repetition: the positions reachable by any number of rounds of \<open>f\<close>.  A round that
  consumes nothing reaches nothing new, so only rounds that shorten the text are followed.
\<close>

function star :: "(pos \<Rightarrow> pos list) \<Rightarrow> pos \<Rightarrow> pos list" where
  "star f st =
     st # concat (map (star f) (filter (\<lambda>st'. length (snd st') < length (snd st)) (f st)))"
  by pat_completeness auto
termination
  by (relation "measure (\<lambda>(f, st). length (snd st))") auto

declare star.simps [simp del]

text \<open>
  \<open>ends r st\<close>: every position at which a match of \<open>r\<close> that starts at
  \<open>st\<close> can end.
\<close>

primrec ends :: "regex \<Rightarrow> pos \<Rightarrow> pos list" where
  "ends Eps st = [st]"
| "ends (Chr c) st = one_char (\<lambda>x. x = c) st"
| "ends Space st = one_char isspace st"
| "ends Dot st = one_char (\<lambda>x. x \<noteq> newline) st"
| "ends Bol st = (if fst st = None then [st] else [])"
| "ends Eol st = (if snd st = [] \<or> snd st = [newline] then [st] else [])"
| "ends WordB st = (if at_boundary st then [st] else [])"
| "ends (Seq r1 r2) st = concat (map (ends r2) (ends r1 st))"
| "ends (Alt r1 r2) st = ends r1 st @ ends r2 st"
| "ends (Star r) st = star (ends r) st"
| "ends (Plus r) st = concat (map (star (ends r)) (ends r st))"
| "ends (Opt r) st = ends r st @ [st]"

text \<open>Every position of a string, from left to right.\<close>

fun positions :: "char option \<Rightarrow> string \<Rightarrow> pos list" where
  "positions p [] = [(p, [])]"
| "positions p (x # xs) = (p, x # xs) # positions (Some x) xs"

text \<open>
  \<^verbatim>\<open>re.search(r, s)\<close> as a truth value: a match of \<open>r\<close>
  starts at some position of \<open>s\<close>.
\<close>

definition re_search :: "regex \<Rightarrow> string \<Rightarrow> bool" where
  "re_search r s = list_ex (\<lambda>st. ends r st \<noteq> []) (positions None s)"

text \<open>Concatenation of several expressions, and a literal word.\<close>

definition seq :: "regex list \<Rightarrow> regex" where
  "seq rs = foldr Seq rs Eps"

definition lit :: "string \<Rightarrow> regex" where
  "lit w = seq (map Chr w)"

section \<open>The command classifier\<close>

text \<open>
  The patterns of \<^verbatim>\<open>map_command_to_mitre\<close>, in the order of the source.
\<close>

definition rx_cd :: regex where
  \<comment> \<open>\<^verbatim>\<open>^\s*cd(\s+.*)?$\<close>\<close>
  "rx_cd = seq [Bol, Star Space, lit ''cd'', Opt (seq [Plus Space, Star Dot]), Eol]"

definition rx_ls :: regex where
  \<comment> \<open>\<^verbatim>\<open>^\s*ls(\s+.*)?$\<close>\<close>
  "rx_ls = seq [Bol, Star Space, lit ''ls'', Opt (seq [Plus Space, Star Dot]), Eol]"

definition rx_cat :: regex where
  \<comment> \<open>\<^verbatim>\<open>^\s*cat\s+.*$\<close>\<close>
  "rx_cat = seq [Bol, Star Space, lit ''cat'', Plus Space, Star Dot, Eol]"

definition rx_passwd :: regex where
  \<comment> \<open>\<^verbatim>\<open>\bpasswd\b\<close>\<close>
  "rx_passwd = seq [WordB, lit ''passwd'', WordB]"

definition rx_sudoers :: regex where
  \<comment> \<open>\<^verbatim>\<open>\bsudoers\b\<close>\<close>
  "rx_sudoers = seq [WordB, lit ''sudoers'', WordB]"

definition rx_echo :: regex where
  \<comment> \<open>\<^verbatim>\<open>^\s*echo\s+.*>\s*\.zsh_history\s*$\<close>\<close>
  "rx_echo = seq [Bol, Star Space, lit ''echo'', Plus Space, Star Dot, Chr CHR ''>'',
                  Star Space, lit ''.zsh_history'', Star Space, Eol]"

definition rx_whoami :: regex where
  \<comment> \<open>\<^verbatim>\<open>^\s*whoami\s*$\<close>\<close>
  "rx_whoami = seq [Bol, Star Space, lit ''whoami'', Star Space, Eol]"

definition rx_clear :: regex where
  \<comment> \<open>\<^verbatim>\<open>^\s*clear\s*$\<close>\<close>
  "rx_clear = seq [Bol, Star Space, lit ''clear'', Star Space, Eol]"

definition rx_uname :: regex where
  \<comment> \<open>\<^verbatim>\<open>^\s*uname(\s+.*)?$\<close>\<close>
  "rx_uname = seq [Bol, Star Space, lit ''uname'', Opt (seq [Plus Space, Star Dot]), Eol]"

definition rx_sudo :: regex where
  \<comment> \<open>\<^verbatim>\<open>^\s*sudo(\s+.*)?$\<close>\<close>
  "rx_sudo = seq [Bol, Star Space, lit ''sudo'', Opt (seq [Plus Space, Star Dot]), Eol]"

definition rx_history :: regex where
  \<comment> \<open>\<^verbatim>\<open>^\s*history(\s+.*)?$\<close>\<close>
  "rx_history = seq [Bol, Star Space, lit ''history'', Opt (seq [Plus Space, Star Dot]), Eol]"

definition rx_power :: regex where
  \<comment> \<open>\<^verbatim>\<open>^\s*(poweroff|reboot)\s*$\<close>\<close>
  "rx_power = seq [Bol, Star Space, Alt (lit ''poweroff'') (lit ''reboot''), Star Space, Eol]"

definition rx_fetch :: regex where
  \<comment> \<open>\<^verbatim>\<open>^\s*(wget|curl)\s+.*$\<close>\<close>
  "rx_fetch = seq [Bol, Star Space, Alt (lit ''wget'') (lit ''curl''), Plus Space, Star Dot, Eol]"

definition rx_netstat :: regex where
  \<comment> \<open>\<^verbatim>\<open>^\s*(netstat|ss)(\s+.*)?$\<close>\<close>
  "rx_netstat = seq [Bol, Star Space, Alt (lit ''netstat'') (lit ''ss''),
                     Opt (seq [Plus Space, Star Dot]), Eol]"

definition rx_chmod :: regex where
  \<comment> \<open>\<^verbatim>\<open>^\s*(chmod|chown)\s+.*$\<close>\<close>
  "rx_chmod = seq [Bol, Star Space, Alt (lit ''chmod'') (lit ''chown''), Plus Space, Star Dot, Eol]"

definition rx_find :: regex where
  \<comment> \<open>\<^verbatim>\<open>^\s*(find|grep)\s+.*$\<close>\<close>
  "rx_find = seq [Bol, Star Space, Alt (lit ''find'') (lit ''grep''), Plus Space, Star Dot, Eol]"

definition rx_systemctl :: regex where
  \<comment> \<open>\<^verbatim>\<open>^\s*systemctl\s+.*$\<close>\<close>
  "rx_systemctl = seq [Bol, Star Space, lit ''systemctl'', Plus Space, Star Dot, Eol]"

definition rx_ps :: regex where
  \<comment> \<open>\<^verbatim>\<open>^\s*(ps|top)(\s+.*)?$\<close>\<close>
  "rx_ps = seq [Bol, Star Space, Alt (lit ''ps'') (lit ''top''),
                Opt (seq [Plus Space, Star Dot]), Eol]"

definition rx_ping :: regex where
  \<comment> \<open>\<^verbatim>\<open>^\s*(traceroute|ping)\s+.*$\<close>\<close>
  "rx_ping = seq [Bol, Star Space, Alt (lit ''traceroute'') (lit ''ping''), Plus Space, Star Dot, Eol]"

text \<open>
  The first half of \<^verbatim>\<open>map_command_to_mitre\<close> (lines 53 to 97): the command is stripped and
  the chain of \<^verbatim>\<open>if\<close>/\<^verbatim>\<open>elif\<close> fills the list \<^verbatim>\<open>techniques\<close>.  The \<^verbatim>\<open>clear\<close> branch leaves
  the function with \<^verbatim>\<open>return []\<close>; that is the result of the second half on the empty
  list, so the branch is the empty list here.
\<close>

definition classify :: "string \<Rightarrow> string list" where
  "classify command0 =
     (let command = strip command0 in
      if re_search rx_cd command then [''T1083'']
      else if re_search rx_ls command then [''T1083'']
      else if re_search rx_cat command then
        (if re_search rx_passwd command then [''T1005'', ''T1087'']
         else if re_search rx_sudoers command then [''T1005'', ''T1087'']
         else [''T1005''])
      else if re_search rx_echo command then [''T1070'']
      else if re_search rx_whoami command then [''T1078'']
      else if re_search rx_clear command then []
      else if re_search rx_uname command then [''T1005'']
      else if re_search rx_sudo command then [''T1078'']
      else if re_search rx_history command then [''T1059'']
      else if re_search rx_power command then [''T1086'']
      else if re_search rx_fetch command then [''T1105'']
      else if re_search rx_netstat command then [''T1049'']
      else if re_search rx_chmod command then [''T1070'']
      else if re_search rx_find command then [''T1083'']
      else if re_search rx_systemctl command then [''T1060'']
      else if re_search rx_ps command then [''T1083'']
      else if re_search rx_ping command then [''T1069'']
      else [''Unknown''])"

section \<open>The reference data and the resolver\<close>

text \<open>
  The reference data is the parsed JSON bundle: a dictionary whose key \<^verbatim>\<open>objects\<close> holds a
  list of dictionaries.  The code reads four keys of an entry, each of which may be
  absent, and the key \<^verbatim>\<open>external_id\<close> of an external reference.  Values are taken to have
  the JSON types of the bundle (strings and lists); other keys are not read and not
  written.
\<close>

record ext_ref =
  external_id :: "string option"

record item =
  external_references :: "ext_ref list option"
  name :: "string option"
  description :: "string option"
  solutions :: "string list option"

record mitre_data =
  objects :: "item list"

datatype error = IndexError

text \<open>
  \<^verbatim>\<open>item.get("external_references", [{}])[0].get("external_id", "")\<close>: a missing list
  stands for one empty reference, an empty list has no element 0.
\<close>

definition primary_id :: "item \<Rightarrow> error + string" where
  "primary_id it =
     (case (case external_references it of None \<Rightarrow> [\<lparr>external_id = None\<rparr>] | Some refs \<Rightarrow> refs) of
        [] \<Rightarrow> Inl IndexError
      | r # _ \<Rightarrow> Inr (case external_id r of None \<Rightarrow> [] | Some x \<Rightarrow> x))"

text \<open>
  \<^verbatim>\<open>next((item for item in mitre_data['objects'] if technique in ...), default)\<close>: the
  generator is consumed up to its first element; the result is the index of that entry
  in the list, or \<open>None\<close> when the generator is exhausted.
\<close>

fun first_entry :: "string \<Rightarrow> item list \<Rightarrow> error + nat option" where
  "first_entry technique [] = Inr None"
| "first_entry technique (it # its) =
     (case primary_id it of
        Inl e \<Rightarrow> Inl e
      | Inr x \<Rightarrow>
          if str_in technique x then Inr (Some 0)
          else (case first_entry technique its of
                  Inl e \<Rightarrow> Inl e
                | Inr None \<Rightarrow> Inr None
                | Inr (Some i) \<Rightarrow> Inr (Some (Suc i))))"

text \<open>
  The value bound to \<^verbatim>\<open>info\<close> is a reference: to an entry of the reference data, which
  the code then shares with it, or to the dictionary written out as the default.
\<close>

datatype info = Shared nat | Fresh item

definition placeholder :: item where
  "placeholder =
     \<lparr>external_references = None,
      name = Some ''Unknown Technique'',
      description = Some ''No description available.'',
      solutions = Some [''No solutions available.'']\<rparr>"

definition deref :: "mitre_data \<Rightarrow> info \<Rightarrow> item" where
  "deref d i = (case i of Shared k \<Rightarrow> objects d ! k | Fresh it \<Rightarrow> it)"

text \<open>
  \<^verbatim>\<open>not info.get('solutions')\<close>: the key is absent or its list is
  empty.
\<close>

definition no_solutions :: "item \<Rightarrow> bool" where
  "no_solutions it = (case solutions it of None \<Rightarrow> True | Some xs \<Rightarrow> xs = [])"

definition fallback_solutions :: "item \<Rightarrow> item" where
  "fallback_solutions it =
     it\<lparr>solutions :=
          Some [case description it of None \<Rightarrow> ''No description available.'' | Some x \<Rightarrow> x]\<rparr>"

text \<open>
  One round of the loop over \<^verbatim>\<open>techniques\<close> (lines 101 to 115): the lookup, then the
  assignment to \<^verbatim>\<open>info['solutions']\<close>, which writes into the reference data when \<^verbatim>\<open>info\<close> is
  one of its entries.
\<close>

definition resolve :: "string \<Rightarrow> mitre_data \<Rightarrow> error + (info \<times> mitre_data)" where
  "resolve technique d =
     (case first_entry technique (objects d) of
        Inl e \<Rightarrow> Inl e
      | Inr found \<Rightarrow>
          (let i = (case found of None \<Rightarrow> Fresh placeholder | Some k \<Rightarrow> Shared k) in
           if no_solutions (deref d i) then
             (case i of
                Shared k \<Rightarrow>
                  Inr (Shared k, d\<lparr>objects := (objects d)[k := fallback_solutions (objects d ! k)]\<rparr>)
              | Fresh it \<Rightarrow> Inr (Fresh (fallback_solutions it), d))
           else Inr (i, d)))"

text \<open>
  The loop over \<^verbatim>\<open>techniques\<close>, appending each
  \<^verbatim>\<open>info\<close> to \<^verbatim>\<open>technique_info\<close>.
\<close>

fun resolve_all ::
  "string list \<Rightarrow> info list \<Rightarrow> mitre_data \<Rightarrow> error + (info list \<times> mitre_data)" where
  "resolve_all [] technique_info d = Inr (technique_info, d)"
| "resolve_all (technique # techniques) technique_info d =
     (case resolve technique d of
        Inl e \<Rightarrow> Inl e
      | Inr (i, d') \<Rightarrow> resolve_all techniques (technique_info @ [i]) d')"

definition map_command_to_mitre ::
  "string \<Rightarrow> mitre_data \<Rightarrow> error + (info list \<times> mitre_data)" where
  "map_command_to_mitre command d = resolve_all (classify command) [] d"

section \<open>The history analyzer\<close>

record classified =
  command :: string
  techniques :: "info list"

text \<open>
  The inner loop of \<^verbatim>\<open>analyze_bash_history\<close>, over the commands of one
  line.
\<close>

fun analyze_commands ::
  "string list \<Rightarrow> classified list \<Rightarrow> mitre_data \<Rightarrow> error + (classified list \<times> mitre_data)" where
  "analyze_commands [] results d = Inr (results, d)"
| "analyze_commands (c # cs) results d =
     (case map_command_to_mitre c d of
        Inl e \<Rightarrow> Inl e
      | Inr (ts, d') \<Rightarrow>
          analyze_commands cs
            (if ts \<noteq> [] then results @ [\<lparr>command = c, techniques = ts\<rparr>] else results) d')"

text \<open>The outer loop, over the lines of the file.\<close>

fun analyze_lines ::
  "string list \<Rightarrow> classified list \<Rightarrow> mitre_data \<Rightarrow> error + (classified list \<times> mitre_data)" where
  "analyze_lines [] results d = Inr (results, d)"
| "analyze_lines (line # lines) results d =
     (case analyze_commands (split CHR '';'' (strip line)) results d of
        Inl e \<Rightarrow> Inl e
      | Inr (results', d') \<Rightarrow> analyze_lines lines results' d')"

text \<open>
  \<^verbatim>\<open>analyze_bash_history\<close>, on the text of the file at \<^verbatim>\<open>file_path\<close>.  It returns the list
  \<^verbatim>\<open>results\<close> and the reference data as the run leaves it.
\<close>

definition analyze_bash_history ::
  "string \<Rightarrow> mitre_data \<Rightarrow> error + (classified list \<times> mitre_data)" where
  "analyze_bash_history text d = analyze_lines (readlines text) [] d"

section \<open>Notions used by the properties\<close>

text \<open>
  The ordered rule table of the specification (section 4.1): each rule is a pattern and the
  technique ids it emits; the rule for \<^verbatim>\<open>cat\<close> chooses its ids by the
  two secondary patterns.
\<close>

definition rule_table :: "(regex \<times> (string \<Rightarrow> string list)) list" where
  "rule_table =
     [(rx_cd, \<lambda>c. [''T1083'']),
      (rx_ls, \<lambda>c. [''T1083'']),
      (rx_cat, \<lambda>c. if re_search rx_passwd c \<or> re_search rx_sudoers c
                    then [''T1005'', ''T1087''] else [''T1005'']),
      (rx_echo, \<lambda>c. [''T1070'']),
      (rx_whoami, \<lambda>c. [''T1078'']),
      (rx_clear, \<lambda>c. []),
      (rx_uname, \<lambda>c. [''T1005'']),
      (rx_sudo, \<lambda>c. [''T1078'']),
      (rx_history, \<lambda>c. [''T1059'']),
      (rx_power, \<lambda>c. [''T1086'']),
      (rx_fetch, \<lambda>c. [''T1105'']),
      (rx_netstat, \<lambda>c. [''T1049'']),
      (rx_chmod, \<lambda>c. [''T1070'']),
      (rx_find, \<lambda>c. [''T1083'']),
      (rx_systemctl, \<lambda>c. [''T1060'']),
      (rx_ps, \<lambda>c. [''T1083'']),
      (rx_ping, \<lambda>c. [''T1069''])]"

text \<open>
  First-match-wins dispatch over a rule table, in the words of the specification: the first
  rule whose pattern matches gives the ids, and a command that matches no rule gives the
  sentinel.
\<close>

definition first_match_wins :: "(regex \<times> (string \<Rightarrow> string list)) list \<Rightarrow> string \<Rightarrow> string list" where
  "first_match_wins rules c =
     (case find (\<lambda>rule. re_search (fst rule) c) rules of
        None \<Rightarrow> [''Unknown'']
      | Some rule \<Rightarrow> snd rule c)"

text \<open>
  An entry that the lookup inspects without error and passes over, and an entry that the
  lookup accepts.
\<close>

definition unmatched :: "string \<Rightarrow> item \<Rightarrow> bool" where
  "unmatched technique it = (case primary_id it of Inl e \<Rightarrow> False | Inr x \<Rightarrow> \<not> str_in technique x)"

definition matched :: "string \<Rightarrow> item \<Rightarrow> bool" where
  "matched technique it = (case primary_id it of Inl e \<Rightarrow> False | Inr x \<Rightarrow> str_in technique x)"


text \<open>
  Every command of a text, in the order of the two loops: the lines, each stripped and split
  at the semicolons.
\<close>

definition segments :: "string \<Rightarrow> string list" where
  "segments text = concat (map (\<lambda>line. split CHR '';'' (strip line)) (readlines text))"

text \<open>
  A string contains the word \<open>w\<close> as a whole word: an occurrence of
  \<open>w\<close> with no word character next to it on either side.
\<close>

definition whole_word :: "string \<Rightarrow> string \<Rightarrow> bool" where
  "whole_word w s =
     (\<exists>u v. s = u @ w @ v \<and> (u = [] \<or> \<not> isword (last u)) \<and> (v = [] \<or> \<not> isword (hd v)))"

text \<open>
  \<open>fills is d d'\<close>: the reference data \<open>d'\<close> is \<open>d\<close> in which exactly the entries
  that the references \<open>is\<close> point to and that had no solutions have received the
  fallback; every other entry is as it was.
\<close>

definition fills :: "info list \<Rightarrow> mitre_data \<Rightarrow> mitre_data \<Rightarrow> bool" where
  "fills is d d' =
     (length (objects d') = length (objects d)
      \<and> (\<forall>k < length (objects d).
            objects d' ! k =
              (if Shared k \<in> set is \<and> no_solutions (objects d ! k)
               then fallback_solutions (objects d ! k) else objects d ! k)))"

text \<open>
  \<open>filled d d'\<close>: the reference data \<open>d'\<close> is \<open>d\<close> in
  which some entries without solutions have received the fallback.
\<close>

definition filled :: "mitre_data \<Rightarrow> mitre_data \<Rightarrow> bool" where
  "filled d d' =
     (length (objects d') = length (objects d)
      \<and> (\<forall>k < length (objects d).
            objects d' ! k = objects d ! k
            \<or> (no_solutions (objects d ! k) \<and> objects d' ! k = fallback_solutions (objects d ! k))))"

text \<open>Entries used in the examples.\<close>

definition sub_entry :: item where
  "sub_entry =
     \<lparr>external_references = Some [\<lparr>external_id = Some ''T1087.001''\<rparr>],
      name = Some ''Local Account'', description = Some ''Local accounts.'',
      solutions = Some [''Audit'']\<rparr>"

definition main_entry :: item where
  "main_entry =
     \<lparr>external_references = Some [\<lparr>external_id = Some ''T1087''\<rparr>],
      name = Some ''Account Discovery'', description = Some ''Accounts.'',
      solutions = Some [''Monitor'']\<rparr>"

definition valid_entry :: item where
  "valid_entry =
     \<lparr>external_references = Some [\<lparr>external_id = Some ''T1078''\<rparr>],
      name = Some ''Valid Accounts'', description = Some ''Use of existing accounts.'',
      solutions = None\<rparr>"

definition bad_entry :: item where
  "bad_entry =
     \<lparr>external_references = Some [], name = Some ''Draft'', description = None,
      solutions = None\<rparr>"

definition idle_entry :: item where
  "idle_entry =
     \<lparr>external_references = Some [\<lparr>external_id = Some ''T1557''\<rparr>],
      name = Some ''Adversary-in-the-Middle'', description = Some ''Interception.'',
      solutions = None\<rparr>"

section \<open>Strings\<close>

lemma str_in_iff: "str_in t s \<longleftrightarrow> (\<exists>u v. s = u @ t @ v)"
proof (induction s)
  case Nil
  show ?case by auto
next
  case (Cons x xs)
  show ?case
  proof
    assume "str_in t (x # xs)"
    then consider "take (length t) (x # xs) = t" | "str_in t xs" by auto
    then show "\<exists>u v. x # xs = u @ t @ v"
    proof cases
      case 1
      then have "x # xs = [] @ t @ drop (length t) (x # xs)"
        by (metis append_Nil append_take_drop_id)
      then show ?thesis by blast
    next
      case 2
      with Cons.IH obtain u v where "xs = u @ t @ v" by blast
      then have "x # xs = (x # u) @ t @ v" by simp
      then show ?thesis by blast
    qed
  next
    assume "\<exists>u v. x # xs = u @ t @ v"
    then obtain u v where uv: "x # xs = u @ t @ v" by blast
    show "str_in t (x # xs)"
    proof (cases u)
      case Nil
      with uv have "take (length t) (x # xs) = t" by (metis append_Nil append_eq_conv_conj)
      then show ?thesis by simp
    next
      case (Cons y ys)
      with uv have "xs = ys @ t @ v" by simp
      with Cons.IH have "str_in t xs" by blast
      then show ?thesis by simp
    qed
  qed
qed

lemma strip_blank: "list_all isspace s \<Longrightarrow> strip s = []"
  by (auto simp: strip_def list_all_iff dest: set_dropWhileD)


lemma strip_prefix: "\<exists>zs. dropWhile isspace s = strip s @ zs"
proof -
  have "rev (dropWhile isspace s)
          = takeWhile isspace (rev (dropWhile isspace s)) @ dropWhile isspace (rev (dropWhile isspace s))"
    by simp
  then have "dropWhile isspace s
          = rev (dropWhile isspace (rev (dropWhile isspace s)))
            @ rev (takeWhile isspace (rev (dropWhile isspace s)))"
    by (metis rev_append rev_rev_ident)
  then show ?thesis by (auto simp: strip_def)
qed

lemma stripped_head: "strip s = [] \<or> \<not> isspace (hd (strip s))"
proof (cases "strip s")
  case Nil
  then show ?thesis by simp
next
  case (Cons a as)
  from strip_prefix obtain zs where "dropWhile isspace s = strip s @ zs" by blast
  with Cons have "dropWhile isspace s = a # (as @ zs)" by simp
  then have "\<not> isspace a" by (metis hd_dropWhile list.sel(1) list.distinct(1))
  with Cons show ?thesis by simp
qed

section \<open>Patterns and the classifier\<close>

lemma bol_later: "\<not> list_ex (\<lambda>st. fst st = None \<and> P st) (positions (Some a) s)"
  by (induction s arbitrary: a) auto

lemma re_search_bol: "re_search (Seq Bol r) s = (ends r (None, s) \<noteq> [])"
  by (cases s) (auto simp: re_search_def bol_later)

lemma star_space_stripped:
  "s = [] \<or> \<not> isspace (hd s) \<Longrightarrow> star (ends Space) (p, s) = [(p, s)]"
  by (subst star.simps) (auto simp: one_char_def split: list.splits)

lemma ends_lit:
  "ends (lit w) (p, s) \<noteq> [] \<Longrightarrow> take (length w) s = w"
proof (induction w arbitrary: p s)
  case Nil
  then show ?case by simp
next
  case (Cons a w)
  from Cons.prems obtain xs where s: "s = a # xs" and "ends (lit w) (Some a, xs) \<noteq> []"
    by (auto simp: lit_def seq_def one_char_def split: list.splits if_splits)
  with Cons.IH show ?case by simp
qed

lemma verb_prefix:
  assumes "s = [] \<or> \<not> isspace (hd s)"
    and "re_search (seq (Bol # Star Space # lit w # rs)) s"
  shows "take (length w) s = w"
proof -
  from assms(2) have "ends (Seq (Star Space) (Seq (lit w) (seq rs))) (None, s) \<noteq> []"
    by (simp add: seq_def re_search_bol)
  with assms(1) have "ends (Seq (lit w) (seq rs)) (None, s) \<noteq> []"
    by (simp add: star_space_stripped)
  then have "ends (lit w) (None, s) \<noteq> []"
    by auto
  then show ?thesis by (rule ends_lit)
qed

lemma cat_not_cd_ls:
  assumes "s = [] \<or> \<not> isspace (hd s)" and "re_search rx_cat s"
  shows "\<not> re_search rx_cd s \<and> \<not> re_search rx_ls s"
proof -
  from assms have cat: "take (length ''cat'') s = ''cat''"
    unfolding rx_cat_def by (rule verb_prefix)
  have "take (length ''cd'') s \<noteq> ''cd''"
    using cat by (cases s; cases "tl s") auto
  moreover have "take (length ''ls'') s \<noteq> ''ls''"
    using cat by (cases s) auto
  ultimately show ?thesis
    using assms(1) verb_prefix unfolding rx_cd_def rx_ls_def by blast
qed

text \<open>
  The two secondary patterns of the \<^verbatim>\<open>cat\<close> rule hold exactly of the
  strings that contain their word as a whole word.
\<close>

lemma ends_lit_Cons:
  "ends (lit (a # w)) st = concat (map (ends (lit w)) (one_char (\<lambda>x. x = a) st))"
  by (simp add: lit_def seq_def)

lemma ends_lit_eq:
  "ends (lit w) (p, s) =
     (if take (length w) s = w
      then [(if w = [] then p else Some (last w), drop (length w) s)] else [])"
proof (induction w arbitrary: p s)
  case Nil
  show ?case by (simp add: lit_def seq_def)
next
  case (Cons a w)
  show ?case
  proof (cases s)
    case Nil
    then show ?thesis by (simp add: ends_lit_Cons one_char_def)
  next
    case (Cons x xs)
    then show ?thesis
      using Cons.IH [of "Some a" xs] by (auto simp: ends_lit_Cons one_char_def)
  qed
qed

lemma positions_splits:
  "(q, v) \<in> set (positions p s) \<longleftrightarrow> (\<exists>u. s = u @ v \<and> q = (if u = [] then p else Some (last u)))"
proof (induction s arbitrary: p)
  case Nil
  show ?case by auto
next
  case (Cons x xs)
  show ?case
  proof
    assume "(q, v) \<in> set (positions p (x # xs))"
    then consider "q = p" "v = x # xs" | "(q, v) \<in> set (positions (Some x) xs)" by auto
    then show "\<exists>u. x # xs = u @ v \<and> q = (if u = [] then p else Some (last u))"
    proof cases
      case 1
      then have "x # xs = [] @ v \<and> q = (if [] = ([] :: string) then p else Some (last []))" by simp
      then show ?thesis by blast
    next
      case 2
      with Cons.IH obtain u where u: "xs = u @ v" "q = (if u = [] then Some x else Some (last u))"
        by blast
      then have "x # xs = (x # u) @ v \<and> q = (if x # u = [] then p else Some (last (x # u)))"
        by simp
      then show ?thesis by blast
    qed
  next
    assume "\<exists>u. x # xs = u @ v \<and> q = (if u = [] then p else Some (last u))"
    then obtain u where u: "x # xs = u @ v" "q = (if u = [] then p else Some (last u))" by blast
    show "(q, v) \<in> set (positions p (x # xs))"
    proof (cases u)
      case Nil
      with u have "v = x # xs" and "q = p" by simp_all
      then show ?thesis by simp
    next
      case (Cons y ys)
      with u have "xs = ys @ v \<and> q = (if ys = [] then Some x else Some (last ys))"
        by auto
      with Cons.IH have "(q, v) \<in> set (positions (Some x) xs)" by blast
      then show ?thesis by simp
    qed
  qed
qed

lemma word_pattern:
  assumes "w \<noteq> []" "isword (hd w)" "isword (last w)"
  shows "re_search (seq [WordB, lit w, WordB]) s \<longleftrightarrow> whole_word w s"
proof -
  have ends_iff: "ends (seq [WordB, lit w, WordB]) (q, v) \<noteq> [] \<longleftrightarrow>
      (q = None \<or> \<not> isword (the q)) \<and> take (length w) v = w
      \<and> (drop (length w) v = [] \<or> \<not> isword (hd (drop (length w) v)))" for q v
  proof (cases "take (length w) v = w")
    case False
    then show ?thesis by (simp add: seq_def ends_lit_eq)
  next
    case True
    with assms obtain x xs where v: "v = x # xs" and x: "x = hd w"
      by (cases v; cases w) auto
    from assms x v have b1: "at_boundary (q, v) \<longleftrightarrow> (q = None \<or> \<not> isword (the q))"
      by (cases q) (auto simp: at_boundary_def)
    from assms have b2: "at_boundary (Some (last w), drop (length w) v) \<longleftrightarrow>
        (drop (length w) v = [] \<or> \<not> isword (hd (drop (length w) v)))"
      by (cases "drop (length w) v") (auto simp: at_boundary_def)
    from True assms b1 b2 show ?thesis
      by (auto simp: seq_def ends_lit_eq)
  qed
  show ?thesis
  proof
    assume "re_search (seq [WordB, lit w, WordB]) s"
    then obtain q v where qv: "(q, v) \<in> set (positions None s)"
      and e: "ends (seq [WordB, lit w, WordB]) (q, v) \<noteq> []"
      by (auto simp: re_search_def list_ex_iff)
    from qv obtain u where u: "s = u @ v" "q = (if u = [] then None else Some (last u))"
      by (auto simp: positions_splits)
    from e have e': "(q = None \<or> \<not> isword (the q))" "take (length w) v = w"
      "(drop (length w) v = [] \<or> \<not> isword (hd (drop (length w) v)))"
      by (simp_all add: ends_iff)
    from e'(2) have "v = w @ drop (length w) v" by (metis append_take_drop_id)
    with u have "s = u @ w @ drop (length w) v" by simp
    moreover from u e'(1) have "u = [] \<or> \<not> isword (last u)" by (auto split: if_splits)
    ultimately show "whole_word w s"
      using e'(3) unfolding whole_word_def by blast
  next
    assume "whole_word w s"
    then obtain u v where uv: "s = u @ w @ v" "u = [] \<or> \<not> isword (last u)"
      "v = [] \<or> \<not> isword (hd v)"
      unfolding whole_word_def by blast
    let ?q = "if u = [] then None else Some (last u)"
    from uv have "(?q, w @ v) \<in> set (positions None s)"
      by (subst positions_splits) auto
    moreover from uv have "ends (seq [WordB, lit w, WordB]) (?q, w @ v) \<noteq> []"
      by (subst ends_iff) auto
    ultimately show "re_search (seq [WordB, lit w, WordB]) s"
      by (auto simp: re_search_def list_ex_iff)
  qed
qed

lemma passwd_whole_word: "re_search rx_passwd s \<longleftrightarrow> whole_word ''passwd'' s"
  unfolding rx_passwd_def by (rule word_pattern) (simp, code_simp+)

lemma sudoers_whole_word: "re_search rx_sudoers s \<longleftrightarrow> whole_word ''sudoers'' s"
  unfolding rx_sudoers_def by (rule word_pattern) (simp, code_simp+)

lemma classify_cong: "strip c = strip c' \<Longrightarrow> classify c = classify c'"
  by (simp add: classify_def)

lemma classify_empty: "classify [] = [''Unknown'']"
  by code_simp

lemma classify_blank: "list_all isspace c \<Longrightarrow> classify c = [''Unknown'']"
proof -
  assume "list_all isspace c"
  then have "strip c = strip []"
    by (simp add: strip_blank)
  then have "classify c = classify []"
    by (rule classify_cong)
  then show ?thesis
    by (simp add: classify_empty)
qed




lemma find_first:
  "list_all (\<lambda>x. \<not> P x) pre \<Longrightarrow> P x \<Longrightarrow> find P (pre @ x # post) = Some x"
  by (induction pre) auto

lemma find_none: "list_all (\<lambda>x. \<not> P x) xs \<Longrightarrow> find P xs = None"
  by (induction xs) auto

lemma classify_table: "classify c = first_match_wins rule_table (strip c)"
  by (simp add: classify_def first_match_wins_def rule_table_def Let_def)

section \<open>The resolver\<close>

lemma first_entry_none:
  "list_all (unmatched t) its \<Longrightarrow> first_entry t its = Inr None"
  by (induction its) (auto simp: unmatched_def split: sum.splits)

lemma first_entry_append:
  "list_all (unmatched t) pre \<Longrightarrow>
   first_entry t (pre @ its) =
     (case first_entry t its of Inl e \<Rightarrow> Inl e | Inr None \<Rightarrow> Inr None
      | Inr (Some i) \<Rightarrow> Inr (Some (length pre + i)))"
  by (induction pre) (auto simp: unmatched_def split: sum.splits option.splits)

lemma first_entry_bound:
  "first_entry t its = Inr (Some k) \<Longrightarrow> k < length its"
  by (induction its arbitrary: k) (auto split: sum.splits option.splits if_splits)

lemma first_entry_hit:
  "first_entry t its = Inr (Some k) \<Longrightarrow>
     (\<exists>x. primary_id (its ! k) = Inr x \<and> str_in t x) \<and> list_all (unmatched t) (take k its)"
  by (induction its arbitrary: k)
     (auto simp: unmatched_def split: sum.splits option.splits if_splits)

lemma first_entry_miss:
  "first_entry t its = Inr None \<Longrightarrow> list_all (unmatched t) its"
  by (induction its) (auto simp: unmatched_def split: sum.splits option.splits if_splits)

lemma first_entry_raises:
  "list_all (\<lambda>it. \<not> matched t it) pre \<Longrightarrow> external_references bad = Some [] \<Longrightarrow>
     first_entry t (pre @ bad # post) = Inl IndexError"
proof (induction pre)
  case Nil
  then show ?case by (simp add: primary_id_def)
next
  case (Cons it pre)
  then have rest: "first_entry t (pre @ bad # post) = Inl IndexError" by simp
  show ?case
  proof (cases "primary_id it")
    case (Inl e)
    then show ?thesis by (cases e) simp
  next
    case (Inr x)
    with Cons.prems(1) have "\<not> str_in t x" by (simp add: matched_def)
    with Inr rest show ?thesis by simp
  qed
qed

lemma first_entry_cong:
  "map primary_id its = map primary_id its' \<Longrightarrow> first_entry t its = first_entry t its'"
proof (induction its arbitrary: its')
  case Nil
  then show ?case by simp
next
  case (Cons a its)
  then obtain b its'' where "its' = b # its''" by (cases its') auto
  with Cons show ?case by (auto split: sum.splits)
qed


lemma primary_id_fallback [simp]: "primary_id (fallback_solutions it) = primary_id it"
  by (simp add: primary_id_def fallback_solutions_def)

lemma no_solutions_fallback [simp]: "\<not> no_solutions (fallback_solutions it)"
  by (simp add: no_solutions_def fallback_solutions_def)

lemma resolve_cases:
  "resolve t d =
     (case first_entry t (objects d) of
        Inl e \<Rightarrow> Inl e
      | Inr None \<Rightarrow> Inr (Fresh placeholder, d)
      | Inr (Some k) \<Rightarrow>
          if no_solutions (objects d ! k)
          then Inr (Shared k, d\<lparr>objects := (objects d)[k := fallback_solutions (objects d ! k)]\<rparr>)
          else Inr (Shared k, d))"
  by (simp add: resolve_def deref_def placeholder_def no_solutions_def Let_def
           split: sum.splits option.splits)

lemma filled_refl: "filled d d"
  by (simp add: filled_def)

lemma filled_trans: "filled d1 d2 \<Longrightarrow> filled d2 d3 \<Longrightarrow> filled d1 d3"
  unfolding filled_def by (metis no_solutions_fallback)

lemma filled_primary_ids:
  assumes "filled d d'"
  shows "map primary_id (objects d') = map primary_id (objects d)"
proof (rule nth_equalityI)
  show "length (map primary_id (objects d')) = length (map primary_id (objects d))"
    using assms by (simp add: filled_def)
  fix k assume "k < length (map primary_id (objects d'))"
  with assms have k: "k < length (objects d)" "k < length (objects d')"
    by (simp_all add: filled_def)
  with assms have "objects d' ! k = objects d ! k
      \<or> objects d' ! k = fallback_solutions (objects d ! k)"
    by (auto simp: filled_def)
  then have "primary_id (objects d' ! k) = primary_id (objects d ! k)"
    by auto
  with k show "map primary_id (objects d') ! k = map primary_id (objects d) ! k"
    by simp
qed

lemma filled_first_entry:
  "filled d d' \<Longrightarrow> first_entry t (objects d') = first_entry t (objects d)"
  by (rule first_entry_cong) (rule filled_primary_ids)


lemma resolve_filled:
  assumes "resolve t d = Inr (i, d')"
  shows "filled d d'"
proof (cases "first_entry t (objects d)")
  case (Inl e)
  with assms show ?thesis by (simp add: resolve_cases)
next
  case (Inr found)
  show ?thesis
  proof (cases found)
    case None
    with Inr assms show ?thesis by (auto simp: resolve_cases filled_refl)
  next
    case (Some k)
    with Inr have "k < length (objects d)" by (simp add: first_entry_bound)
    with Some Inr assms show ?thesis
      by (auto simp: resolve_cases filled_def nth_list_update split: if_splits)
  qed
qed

lemma resolve_again:
  assumes r: "resolve t d = Inr (i, d')" and f: "filled d' d''"
  shows "resolve t d'' = Inr (i, d'')"
proof -
  have dd': "filled d d'" using r by (rule resolve_filled)
  have fe: "first_entry t (objects d'') = first_entry t (objects d)"
    using filled_first_entry [OF f] filled_first_entry [OF dd'] by simp
  show ?thesis
  proof (cases "first_entry t (objects d)")
    case (Inl e)
    with r show ?thesis by (simp add: resolve_cases)
  next
    case (Inr found)
    show ?thesis
    proof (cases found)
      case None
      with Inr r fe show ?thesis by (auto simp: resolve_cases)
    next
      case (Some k)
      with Inr have k: "k < length (objects d)" by (simp add: first_entry_bound)
      with dd' have k': "k < length (objects d')" by (simp add: filled_def)
      from Some Inr r k have "\<not> no_solutions (objects d' ! k)"
        by (auto simp: resolve_cases split: if_splits)
      with f k' have "objects d'' ! k = objects d' ! k"
        by (auto simp: filled_def)
      with \<open>\<not> no_solutions (objects d' ! k)\<close> Some Inr r fe show ?thesis
        by (auto simp: resolve_cases split: if_splits)
    qed
  qed
qed


lemma resolve_all_filled:
  "resolve_all ts acc d = Inr (is, d') \<Longrightarrow>
     filled d d' \<and> (\<forall>d''. filled d' d'' \<longrightarrow> resolve_all ts acc d'' = Inr (is, d''))"
proof (induction ts arbitrary: acc d)
  case Nil
  then show ?case by (auto simp: filled_refl)
next
  case (Cons t ts)
  from Cons.prems obtain i d1 where r: "resolve t d = Inr (i, d1)"
    and rest: "resolve_all ts (acc @ [i]) d1 = Inr (is, d')"
    by (auto split: sum.splits)
  from Cons.IH [OF rest] have f1: "filled d1 d'"
    and again: "\<And>d''. filled d' d'' \<Longrightarrow> resolve_all ts (acc @ [i]) d'' = Inr (is, d'')"
    by auto
  have "filled d d'"
    using resolve_filled [OF r] f1 by (rule filled_trans)
  moreover have "resolve_all (t # ts) acc d'' = Inr (is, d'')" if "filled d' d''" for d''
  proof -
    have "filled d1 d''" using f1 that by (rule filled_trans)
    with r have "resolve t d'' = Inr (i, d'')" by (rule resolve_again)
    with again [OF that] show ?thesis by simp
  qed
  ultimately show ?case by blast
qed

lemma error_is_IndexError: "(x :: error + 'a) = Inl e \<Longrightarrow> x = Inl IndexError"
  by (cases e) simp

lemma resolve_raises_filled:
  "resolve t d = Inl e \<Longrightarrow> filled d d1 \<Longrightarrow> resolve t d1 = Inl e"
  by (auto simp: resolve_cases filled_first_entry Let_def split: sum.splits option.splits if_splits)

lemma resolve_all_raises:
  "t \<in> set ts \<Longrightarrow> resolve t d = Inl e \<Longrightarrow> filled d d1 \<Longrightarrow>
     resolve_all ts acc d1 = Inl IndexError"
proof (induction ts arbitrary: acc d1)
  case Nil
  then show ?case by simp
next
  case (Cons a ts)
  show ?case
  proof (cases "resolve a d1")
    case (Inl e')
    then have "resolve_all (a # ts) acc d1 = Inl e'" by simp
    then show ?thesis by (rule error_is_IndexError)
  next
    case (Inr p)
    obtain i d2 where p: "p = (i, d2)" by (cases p)
    from Cons.prems(2,3) have "resolve t d1 = Inl e" by (rule resolve_raises_filled)
    with Inr have "a \<noteq> t" by auto
    with Cons.prems(1) have "t \<in> set ts" by simp
    moreover from Inr p have "filled d1 d2" by (auto intro: resolve_filled)
    with Cons.prems(3) have "filled d d2" by (rule filled_trans)
    ultimately have "resolve_all ts (acc @ [i]) d2 = Inl IndexError"
      using Cons.prems(2) by (intro Cons.IH)
    with Inr p show ?thesis by simp
  qed
qed

lemma fills_Nil: "fills [] d d"
  by (simp add: fills_def)

lemma fills_append:
  assumes "fills xs d d1" and "fills ys d1 d2"
  shows "fills (xs @ ys) d d2"
proof -
  have len: "length (objects d2) = length (objects d)"
    using assms by (simp add: fills_def)
  have "objects d2 ! k =
          (if Shared k \<in> set (xs @ ys) \<and> no_solutions (objects d ! k)
           then fallback_solutions (objects d ! k) else objects d ! k)"
    if k: "k < length (objects d)" for k
  proof -
    from assms(1) k have k1: "k < length (objects d1)"
      and e1: "objects d1 ! k =
          (if Shared k \<in> set xs \<and> no_solutions (objects d ! k)
           then fallback_solutions (objects d ! k) else objects d ! k)"
      by (simp_all add: fills_def)
    from assms(2) k1 have e2: "objects d2 ! k =
          (if Shared k \<in> set ys \<and> no_solutions (objects d1 ! k)
           then fallback_solutions (objects d1 ! k) else objects d1 ! k)"
      by (simp add: fills_def)
    show ?thesis
      unfolding e2 e1 by (auto simp: no_solutions_fallback)
  qed
  with len show ?thesis by (simp add: fills_def)
qed

lemma resolve_fills:
  assumes "resolve t d = Inr (i, d')"
  shows "fills [i] d d'"
proof (cases "first_entry t (objects d)")
  case (Inl e)
  with assms show ?thesis by (simp add: resolve_cases)
next
  case (Inr found)
  show ?thesis
  proof (cases found)
    case None
    with Inr assms show ?thesis by (auto simp: resolve_cases fills_def)
  next
    case (Some k)
    with Inr have "k < length (objects d)" by (simp add: first_entry_bound)
    with Some Inr assms show ?thesis
      by (auto simp: resolve_cases fills_def nth_list_update split: if_splits)
  qed
qed

lemma resolve_all_fills:
  "resolve_all ts acc d = Inr (is, d') \<Longrightarrow> \<exists>new. is = acc @ new \<and> fills new d d'"
proof (induction ts arbitrary: acc d)
  case Nil
  then show ?case by (auto simp: fills_Nil)
next
  case (Cons t ts)
  from Cons.prems obtain i d1 where r: "resolve t d = Inr (i, d1)"
    and rest: "resolve_all ts (acc @ [i]) d1 = Inr (is, d')"
    by (auto split: sum.splits)
  from Cons.IH [OF rest] obtain new where n: "is = (acc @ [i]) @ new" "fills new d1 d'"
    by blast
  from resolve_fills [OF r] n(2) have "fills ([i] @ new) d d'"
    by (rule fills_append)
  with n(1) show ?case by auto
qed

lemma resolve_all_length:
  "resolve_all ts acc d = Inr (is, d') \<Longrightarrow> length is = length acc + length ts"
  by (induction ts arbitrary: acc d) (auto split: sum.splits)

section \<open>The analyzer\<close>

lemma map_command_length:
  "map_command_to_mitre c d = Inr (ts, d') \<Longrightarrow> length ts = length (classify c)"
  by (auto simp: map_command_to_mitre_def dest: resolve_all_length)

lemma analyze_commands_kept:
  "analyze_commands cs results d = Inr (res, d') \<Longrightarrow>
     map command res = map command results @ filter (\<lambda>c. classify c \<noteq> []) cs"
proof (induction cs arbitrary: results d)
  case Nil
  then show ?case by simp
next
  case (Cons c cs)
  from Cons.prems obtain ts d1 where m: "map_command_to_mitre c d = Inr (ts, d1)"
    and rest: "analyze_commands cs
        (if ts \<noteq> [] then results @ [\<lparr>command = c, techniques = ts\<rparr>] else results) d1
        = Inr (res, d')"
    by (auto split: sum.splits)
  from map_command_length [OF m] have "ts \<noteq> [] \<longleftrightarrow> classify c \<noteq> []"
    by auto
  with Cons.IH [OF rest] show ?case
    by auto
qed

lemma analyze_commands_techniques:
  "analyze_commands cs results d = Inr (res, d') \<Longrightarrow>
     list_all (\<lambda>r. length (techniques r) = length (classify (command r))) results \<Longrightarrow>
     list_all (\<lambda>r. length (techniques r) = length (classify (command r))) res"
proof (induction cs arbitrary: results d)
  case Nil
  then show ?case by simp
next
  case (Cons c cs)
  from Cons.prems obtain ts d1 where m: "map_command_to_mitre c d = Inr (ts, d1)"
    and rest: "analyze_commands cs
        (if ts \<noteq> [] then results @ [\<lparr>command = c, techniques = ts\<rparr>] else results) d1
        = Inr (res, d')"
    by (auto split: sum.splits)
  show ?case
    using Cons.IH [OF rest] Cons.prems(2) map_command_length [OF m] by auto
qed

lemma analyze_commands_filled:
  "analyze_commands cs results d = Inr (res, d') \<Longrightarrow>
     filled d d' \<and> (\<forall>d''. filled d' d'' \<longrightarrow> analyze_commands cs results d'' = Inr (res, d''))"
proof (induction cs arbitrary: results d)
  case Nil
  then show ?case by (auto simp: filled_refl)
next
  case (Cons c cs)
  from Cons.prems obtain ts d1 where m: "map_command_to_mitre c d = Inr (ts, d1)"
    and rest: "analyze_commands cs
        (if ts \<noteq> [] then results @ [\<lparr>command = c, techniques = ts\<rparr>] else results) d1
        = Inr (res, d')"
    by (auto split: sum.splits)
  from m have m': "resolve_all (classify c) [] d = Inr (ts, d1)"
    by (simp add: map_command_to_mitre_def)
  from Cons.IH [OF rest] have f1: "filled d1 d'"
    and again: "\<And>d''. filled d' d'' \<Longrightarrow> analyze_commands cs
        (if ts \<noteq> [] then results @ [\<lparr>command = c, techniques = ts\<rparr>] else results) d''
        = Inr (res, d'')"
    by auto
  from resolve_all_filled [OF m'] have f0: "filled d d1"
    and m_again: "\<And>d''. filled d1 d'' \<Longrightarrow> resolve_all (classify c) [] d'' = Inr (ts, d'')"
    by auto
  have "filled d d'"
    using f0 f1 by (rule filled_trans)
  moreover have "analyze_commands (c # cs) results d'' = Inr (res, d'')" if "filled d' d''" for d''
  proof -
    have "filled d1 d''" using f1 that by (rule filled_trans)
    then have "map_command_to_mitre c d'' = Inr (ts, d'')"
      using m_again by (simp add: map_command_to_mitre_def)
    with again [OF that] show ?thesis by simp
  qed
  ultimately show ?case by blast
qed

lemma analyze_commands_raises:
  "c \<in> set cs \<Longrightarrow> t \<in> set (classify c) \<Longrightarrow> resolve t d = Inl e \<Longrightarrow> filled d d1 \<Longrightarrow>
     analyze_commands cs results d1 = Inl IndexError"
proof (induction cs arbitrary: results d1)
  case Nil
  then show ?case by simp
next
  case (Cons a cs)
  show ?case
  proof (cases "map_command_to_mitre a d1")
    case (Inl e')
    then have "analyze_commands (a # cs) results d1 = Inl e'" by simp
    then show ?thesis by (rule error_is_IndexError)
  next
    case (Inr p)
    obtain ts d2 where p: "p = (ts, d2)" by (cases p)
    have "a \<noteq> c"
    proof
      assume "a = c"
      with Cons.prems(2,3,4) have "resolve_all (classify a) [] d1 = Inl IndexError"
        by (intro resolve_all_raises) auto
      with Inr show False by (simp add: map_command_to_mitre_def)
    qed
    with Cons.prems(1) have "c \<in> set cs" by simp
    moreover from Inr p have "filled d1 d2"
      by (auto simp: map_command_to_mitre_def dest: resolve_all_filled)
    with Cons.prems(4) have "filled d d2" by (rule filled_trans)
    ultimately have "analyze_commands cs
        (if ts \<noteq> [] then results @ [\<lparr>command = a, techniques = ts\<rparr>] else results) d2
        = Inl IndexError"
      using Cons.prems(2,3) by (intro Cons.IH)
    with Inr p show ?thesis by simp
  qed
qed

lemma analyze_commands_fills:
  "analyze_commands cs results d = Inr (res, d') \<Longrightarrow>
     \<exists>new. res = results @ new \<and> fills (concat (map techniques new)) d d'"
proof (induction cs arbitrary: results d)
  case Nil
  then show ?case by (auto simp: fills_Nil)
next
  case (Cons c cs)
  from Cons.prems obtain ts d1 where m: "map_command_to_mitre c d = Inr (ts, d1)"
    and rest: "analyze_commands cs
        (if ts \<noteq> [] then results @ [\<lparr>command = c, techniques = ts\<rparr>] else results) d1
        = Inr (res, d')"
    by (auto split: sum.splits)
  from m have "resolve_all (classify c) [] d = Inr (ts, d1)"
    by (simp add: map_command_to_mitre_def)
  from resolve_all_fills [OF this] have f1: "fills ts d d1"
    by simp
  from Cons.IH [OF rest] obtain new where
    n: "res = (if ts \<noteq> [] then results @ [\<lparr>command = c, techniques = ts\<rparr>] else results) @ new"
      "fills (concat (map techniques new)) d1 d'"
    by blast
  show ?case
  proof (cases "ts = []")
    case True
    with f1 n(2) have "fills ([] @ concat (map techniques new)) d d'"
      by (intro fills_append) simp_all
    with True n(1) show ?thesis by auto
  next
    case False
    from f1 n(2) have "fills (ts @ concat (map techniques new)) d d'"
      by (rule fills_append)
    then have "fills (concat (map techniques (\<lparr>command = c, techniques = ts\<rparr> # new))) d d'"
      by simp
    moreover from False n(1) have "res = results @ \<lparr>command = c, techniques = ts\<rparr> # new"
      by simp
    ultimately show ?thesis by blast
  qed
qed

lemma analyze_commands_append:
  "analyze_commands (xs @ ys) results d =
     (case analyze_commands xs results d of
        Inl e \<Rightarrow> Inl e
      | Inr (results', d') \<Rightarrow> analyze_commands ys results' d')"
  by (induction xs arbitrary: results d) (auto split: sum.splits)

lemma analyze_lines_flat:
  "analyze_lines ls results d =
     analyze_commands (concat (map (\<lambda>line. split CHR '';'' (strip line)) ls)) results d"
  by (induction ls arbitrary: results d) (auto simp: analyze_commands_append split: sum.splits)

lemma analyze_flat:
  "analyze_bash_history text d = analyze_commands (segments text) [] d"
  by (simp add: analyze_bash_history_def segments_def analyze_lines_flat)

section \<open>The claims\<close>

subsection \<open>C1\<close>

text \<open>
  Claim C1 as stated fails in two ways.  Against empty reference data the placeholder is
  returned with the solutions written in the source, the one-element list ``No solutions
  available.'', not ``No description available.''.  Against reference data with an entry whose
  primary identifier is the word ``Unknown'' that entry is returned, not the placeholder.
\<close>

theorem C1_counterexample:
  "resolve ''Unknown'' \<lparr>objects = []\<rparr> = Inr (Fresh placeholder, \<lparr>objects = []\<rparr>)
   \<and> solutions placeholder = Some [''No solutions available.'']
   \<and> solutions placeholder \<noteq> Some [''No description available.'']
   \<and> resolve ''Unknown''
        \<lparr>objects = [\<lparr>external_references = Some [\<lparr>external_id = Some ''Unknown''\<rparr>],
                     name = Some ''Other'', description = Some ''Text'',
                     solutions = Some [''Fix'']\<rparr>]\<rparr>
       = Inr (Shared 0,
              \<lparr>objects = [\<lparr>external_references = Some [\<lparr>external_id = Some ''Unknown''\<rparr>],
                     name = Some ''Other'', description = Some ''Text'',
                     solutions = Some [''Fix'']\<rparr>]\<rparr>)"
  by (simp add: resolve_cases placeholder_def primary_id_def no_solutions_def)

text \<open>
  Claim C1, amended: a command that matches none of the rules is classified as the one-element
  list ``Unknown''; and when no entry of the reference data has a primary identifier that
  contains ``Unknown'' (each entry being inspected without error), resolving ``Unknown''
  returns the placeholder record, with name ``Unknown Technique'', description ``No
  description available.'' and solutions the one-element list ``No solutions available.'', and
  leaves the reference data as it was.
\<close>

theorem C1_unknown_placeholder:
  "(list_all (\<lambda>rule. \<not> re_search (fst rule) (strip c)) rule_table \<longrightarrow> classify c = [''Unknown''])
   \<and> (list_all (unmatched ''Unknown'') (objects d) \<longrightarrow>
        resolve ''Unknown'' d = Inr (Fresh placeholder, d)
        \<and> name placeholder = Some ''Unknown Technique''
        \<and> description placeholder = Some ''No description available.''
        \<and> solutions placeholder = Some [''No solutions available.''])"
  by (simp add: classify_table first_match_wins_def find_none resolve_cases first_entry_none
        placeholder_def)

text \<open>
  Claim C1, amended, at the command \<^verbatim>\<open>make install\<close> and reference data
  of one entry.
\<close>

theorem C1_unknown_placeholder_witness:
  "list_all (\<lambda>rule. \<not> re_search (fst rule) (strip ''make install'')) rule_table
   \<and> classify ''make install'' = [''Unknown'']
   \<and> list_all (unmatched ''Unknown'') (objects \<lparr>objects = [main_entry]\<rparr>)
   \<and> resolve ''Unknown'' \<lparr>objects = [main_entry]\<rparr> = Inr (Fresh placeholder, \<lparr>objects = [main_entry]\<rparr>)"
proof -
  have h1: "list_all (\<lambda>rule. \<not> re_search (fst rule) (strip ''make install'')) rule_table"
    by code_simp
  have h2: "list_all (unmatched ''Unknown'') (objects \<lparr>objects = [main_entry]\<rparr>)"
    by code_simp
  from C1_unknown_placeholder [of "''make install''" "\<lparr>objects = [main_entry]\<rparr>"] h1 h2
  show ?thesis by blast
qed

subsection \<open>C2\<close>

text \<open>
  Claim C2 as stated fails: the test of the lookup is substring containment, so an entry with
  identifier T1087.001 placed before the entry with identifier T1087 is the one returned for
  the id T1087.
\<close>

theorem C2_counterexample:
  "resolve ''T1087'' \<lparr>objects = [sub_entry, main_entry]\<rparr>
     = Inr (Shared 0, \<lparr>objects = [sub_entry, main_entry]\<rparr>)
   \<and> primary_id sub_entry = Inr ''T1087.001''
   \<and> ''T1087.001'' \<noteq> ''T1087''
   \<and> primary_id main_entry = Inr ''T1087''"
  by (simp add: resolve_cases sub_entry_def main_entry_def primary_id_def no_solutions_def)

text \<open>
  Claim C2, amended: for every technique id and all reference data, when the entries before
  some entry are inspected without error and their primary identifiers do not contain the
  id, and the primary identifier of that entry (the identifier of the first element of its
  external references) contains the id as a substring, resolution returns that entry: its
  name and description, and its solutions or the fallback for them.  Entries whose primary
  identifier does not contain the id are not matched: when no entry contains it the
  placeholder is returned, an entry that resolution returns contains the id in its primary
  identifier and no entry before it does, and the placeholder is returned only when no
  entry contains the id.
\<close>

theorem C2_first_containing:
  "(objects d = pre @ it # post \<and> list_all (unmatched t) pre \<and> primary_id it = Inr (u @ t @ v)
    \<longrightarrow> (\<exists>d'. resolve t d = Inr (Shared (length pre), d')
            \<and> deref d' (Shared (length pre)) = (if no_solutions it then fallback_solutions it else it)
            \<and> name (deref d' (Shared (length pre))) = name it
            \<and> description (deref d' (Shared (length pre))) = description it))
   \<and> (list_all (unmatched t) (objects d) \<longrightarrow> resolve t d = Inr (Fresh placeholder, d))
   \<and> (resolve t d = Inr (Shared k, d'') \<longrightarrow>
         k < length (objects d)
         \<and> (\<exists>u v. primary_id (objects d ! k) = Inr (u @ t @ v))
         \<and> list_all (unmatched t) (take k (objects d)))
   \<and> (resolve t d = Inr (Fresh r, d'') \<longrightarrow>
         r = placeholder \<and> d'' = d \<and> list_all (unmatched t) (objects d))"
proof -
  have first: "\<exists>d'. resolve t d = Inr (Shared (length pre), d')
            \<and> deref d' (Shared (length pre)) = (if no_solutions it then fallback_solutions it else it)
            \<and> name (deref d' (Shared (length pre))) = name it
            \<and> description (deref d' (Shared (length pre))) = description it"
    if a: "objects d = pre @ it # post \<and> list_all (unmatched t) pre
               \<and> primary_id it = Inr (u @ t @ v)"
  proof -
    have "str_in t (u @ t @ v)"
      by (auto simp: str_in_iff)
    with a have fe: "first_entry t (objects d) = Inr (Some (length pre))"
      by (simp add: first_entry_append)
    from a have nth: "objects d ! length pre = it"
      by simp
    from a have len: "length pre < length (objects d)"
      by simp
    show ?thesis
      using fe nth len by (simp add: resolve_cases deref_def fallback_solutions_def)
  qed
  have none: "resolve t d = Inr (Fresh placeholder, d)" if "list_all (unmatched t) (objects d)"
    using that by (simp add: resolve_cases first_entry_none)
  have shared: "k < length (objects d)
         \<and> (\<exists>u v. primary_id (objects d ! k) = Inr (u @ t @ v))
         \<and> list_all (unmatched t) (take k (objects d))"
    if r: "resolve t d = Inr (Shared k, d'')"
  proof -
    from r have fe: "first_entry t (objects d) = Inr (Some k)"
      by (auto simp: resolve_cases split: sum.splits option.splits if_splits)
    from first_entry_hit [OF fe] obtain x
      where x: "primary_id (objects d ! k) = Inr x" "str_in t x"
        and before: "list_all (unmatched t) (take k (objects d))"
      by blast
    from x(2) obtain a b where "x = a @ t @ b"
      by (auto simp: str_in_iff)
    with x(1) have "\<exists>u v. primary_id (objects d ! k) = Inr (u @ t @ v)"
      by blast
    with before first_entry_bound [OF fe] show ?thesis
      by blast
  qed
  have fresh: "r = placeholder \<and> d'' = d \<and> list_all (unmatched t) (objects d)"
    if r: "resolve t d = Inr (Fresh r, d'')"
  proof -
    from r have fe: "first_entry t (objects d) = Inr None"
      by (auto simp: resolve_cases split: sum.splits option.splits if_splits)
    with r have "r = placeholder \<and> d'' = d"
      by (simp add: resolve_cases)
    with first_entry_miss [OF fe] show ?thesis
      by blast
  qed
  from first none shared fresh show ?thesis
    by blast
qed

text \<open>
  Claim C2, amended, at the id T1087, which the second of three entries contains without
  being equal to it, and at the id T1083, which no entry contains.
\<close>

theorem C2_first_containing_witness:
  "objects \<lparr>objects = [valid_entry, sub_entry, main_entry]\<rparr> = [valid_entry] @ sub_entry # [main_entry]
   \<and> list_all (unmatched ''T1087'') [valid_entry]
   \<and> primary_id sub_entry = Inr ([] @ ''T1087'' @ ''.001'')
   \<and> (\<exists>d'. resolve ''T1087'' \<lparr>objects = [valid_entry, sub_entry, main_entry]\<rparr>
               = Inr (Shared (length [valid_entry]), d')
          \<and> name (deref d' (Shared (length [valid_entry]))) = name sub_entry)
   \<and> list_all (unmatched ''T1083'') (objects \<lparr>objects = [valid_entry, sub_entry, main_entry]\<rparr>)
   \<and> resolve ''T1083'' \<lparr>objects = [valid_entry, sub_entry, main_entry]\<rparr>
       = Inr (Fresh placeholder, \<lparr>objects = [valid_entry, sub_entry, main_entry]\<rparr>)"
proof -
  have h1: "objects \<lparr>objects = [valid_entry, sub_entry, main_entry]\<rparr>
      = [valid_entry] @ sub_entry # [main_entry]"
    by simp
  have h2: "list_all (unmatched ''T1087'') [valid_entry]"
    by code_simp
  have h3: "primary_id sub_entry = Inr ([] @ ''T1087'' @ ''.001'')"
    by code_simp
  have h4: "list_all (unmatched ''T1083'') (objects \<lparr>objects = [valid_entry, sub_entry, main_entry]\<rparr>)"
    by code_simp
  from C2_first_containing [of "\<lparr>objects = [valid_entry, sub_entry, main_entry]\<rparr>" "[valid_entry]"
      sub_entry "[main_entry]" "''T1087''" "[]" "''.001''"] h1 h2 h3
  have a: "\<exists>d'. resolve ''T1087'' \<lparr>objects = [valid_entry, sub_entry, main_entry]\<rparr>
               = Inr (Shared (length [valid_entry]), d')
          \<and> name (deref d' (Shared (length [valid_entry]))) = name sub_entry"
    by blast
  from C2_first_containing [of "\<lparr>objects = [valid_entry, sub_entry, main_entry]\<rparr>" _ _ _
      "''T1083''"] h4
  have b: "resolve ''T1083'' \<lparr>objects = [valid_entry, sub_entry, main_entry]\<rparr>
       = Inr (Fresh placeholder, \<lparr>objects = [valid_entry, sub_entry, main_entry]\<rparr>)"
    by blast
  from h1 h2 h3 a h4 b show ?thesis by blast
qed

subsection \<open>C3\<close>

text \<open>
  Claim C3 as stated fails: analyzing \<^verbatim>\<open>cat /etc/passwd\<close> against an
  entry T1087 that has no solutions writes a solutions field into that entry of the reference
  data.
\<close>

theorem C3_counterexample:
  "analyze_bash_history ''cat /etc/passwd'' \<lparr>objects = [main_entry\<lparr>solutions := None\<rparr>]\<rparr>
     = Inr ([\<lparr>command = ''cat /etc/passwd'', techniques = [Fresh placeholder, Shared 0]\<rparr>],
            \<lparr>objects = [main_entry\<lparr>solutions := Some [''Accounts.'']\<rparr>]\<rparr>)
   \<and> main_entry\<lparr>solutions := Some [''Accounts.'']\<rparr> \<noteq> main_entry\<lparr>solutions := None\<rparr>"
  by code_simp

text \<open>
  Claim C3, amended: when a run of the analysis returns, a second run on the same text and
  the reference data as the first run left it returns the same results and changes nothing;
  the first run keeps the number of entries; an entry that a technique record of the
  results refers to (a matched entry) and that had no solutions has received the
  one-element list of its description as solutions; every other entry is unchanged.
\<close>

theorem C3_idempotent_fills_solutions:
  "analyze_bash_history text d = Inr (res, d') \<longrightarrow>
     analyze_bash_history text d' = Inr (res, d')
     \<and> length (objects d') = length (objects d)
     \<and> (\<forall>k < length (objects d).
           objects d' ! k =
             (if Shared k \<in> set (concat (map techniques res)) \<and> no_solutions (objects d ! k)
              then fallback_solutions (objects d ! k) else objects d ! k))"
proof
  assume "analyze_bash_history text d = Inr (res, d')"
  then have a: "analyze_commands (segments text) [] d = Inr (res, d')"
    by (simp add: analyze_flat)
  from analyze_commands_filled [OF a]
  have "analyze_commands (segments text) [] d' = Inr (res, d')"
    by (auto simp: filled_refl)
  moreover from analyze_commands_fills [OF a]
  have "fills (concat (map techniques res)) d d'"
    by simp
  ultimately show "analyze_bash_history text d' = Inr (res, d')
     \<and> length (objects d') = length (objects d)
     \<and> (\<forall>k < length (objects d).
           objects d' ! k =
             (if Shared k \<in> set (concat (map techniques res)) \<and> no_solutions (objects d ! k)
              then fallback_solutions (objects d ! k) else objects d ! k))"
    by (simp add: analyze_flat fills_def)
qed

text \<open>
  Claim C3, amended, at a text of two lines, the first ended by a carriage return, and
  reference data of three entries: the matched entry without solutions is filled, the
  entry without solutions that no command matches stays as it was.
\<close>

theorem C3_idempotent_fills_solutions_witness:
  "analyze_bash_history (''cat /etc/passwd'' @ [carriage_return] @ ''whoami'')
       \<lparr>objects = [idle_entry, main_entry, valid_entry]\<rparr>
     = Inr ([\<lparr>command = ''cat /etc/passwd'', techniques = [Fresh placeholder, Shared 1]\<rparr>,
             \<lparr>command = ''whoami'', techniques = [Shared 2]\<rparr>],
            \<lparr>objects = [idle_entry, main_entry,
                         valid_entry\<lparr>solutions := Some [''Use of existing accounts.'']\<rparr>]\<rparr>)
   \<and> analyze_bash_history (''cat /etc/passwd'' @ [carriage_return] @ ''whoami'')
         \<lparr>objects = [idle_entry, main_entry,
                      valid_entry\<lparr>solutions := Some [''Use of existing accounts.'']\<rparr>]\<rparr>
     = Inr ([\<lparr>command = ''cat /etc/passwd'', techniques = [Fresh placeholder, Shared 1]\<rparr>,
             \<lparr>command = ''whoami'', techniques = [Shared 2]\<rparr>],
            \<lparr>objects = [idle_entry, main_entry,
                         valid_entry\<lparr>solutions := Some [''Use of existing accounts.'']\<rparr>]\<rparr>)
   \<and> no_solutions idle_entry
   \<and> objects \<lparr>objects = [idle_entry, main_entry,
                         valid_entry\<lparr>solutions := Some [''Use of existing accounts.'']\<rparr>]\<rparr> ! 0
       = (if Shared 0 \<in> set (concat (map techniques
               [\<lparr>command = ''cat /etc/passwd'', techniques = [Fresh placeholder, Shared 1]\<rparr>,
                \<lparr>command = ''whoami'', techniques = [Shared 2]\<rparr>]))
             \<and> no_solutions (objects \<lparr>objects = [idle_entry, main_entry, valid_entry]\<rparr> ! 0)
          then fallback_solutions (objects \<lparr>objects = [idle_entry, main_entry, valid_entry]\<rparr> ! 0)
          else objects \<lparr>objects = [idle_entry, main_entry, valid_entry]\<rparr> ! 0)"
proof -
  have h: "analyze_bash_history (''cat /etc/passwd'' @ [carriage_return] @ ''whoami'')
       \<lparr>objects = [idle_entry, main_entry, valid_entry]\<rparr>
     = Inr ([\<lparr>command = ''cat /etc/passwd'', techniques = [Fresh placeholder, Shared 1]\<rparr>,
             \<lparr>command = ''whoami'', techniques = [Shared 2]\<rparr>],
            \<lparr>objects = [idle_entry, main_entry,
                         valid_entry\<lparr>solutions := Some [''Use of existing accounts.'']\<rparr>]\<rparr>)"
    by code_simp
  have n: "no_solutions idle_entry"
    by code_simp
  have l: "0 < length (objects \<lparr>objects = [idle_entry, main_entry, valid_entry]\<rparr>)"
    by simp
  from C3_idempotent_fills_solutions [of
      "''cat /etc/passwd'' @ [carriage_return] @ ''whoami''"
      "\<lparr>objects = [idle_entry, main_entry, valid_entry]\<rparr>"
      "[\<lparr>command = ''cat /etc/passwd'', techniques = [Fresh placeholder, Shared 1]\<rparr>,
             \<lparr>command = ''whoami'', techniques = [Shared 2]\<rparr>]"
      "\<lparr>objects = [idle_entry, main_entry,
                         valid_entry\<lparr>solutions := Some [''Use of existing accounts.'']\<rparr>]\<rparr>"] h n l
  show ?thesis by blast
qed

subsection \<open>C4\<close>

text \<open>
  Claim C4 as stated fails: the second command of \<^verbatim>\<open>cd /tmp; whoami\<close>
  is stored with its leading blank, which stripping would remove.
\<close>

theorem C4_counterexample:
  "analyze_bash_history ''cd /tmp; whoami'' \<lparr>objects = []\<rparr>
     = Inr ([\<lparr>command = ''cd /tmp'', techniques = [Fresh placeholder]\<rparr>,
             \<lparr>command = '' whoami'', techniques = [Fresh placeholder]\<rparr>],
            \<lparr>objects = []\<rparr>)
   \<and> segments ''cd /tmp; whoami'' = [''cd /tmp'', '' whoami'']
   \<and> strip '' whoami'' = ''whoami''
   \<and> '' whoami'' \<noteq> ''whoami''"
  by code_simp

text \<open>
  Claim C4, amended: every entry of the result stores its command exactly as it was split from
  the stripped line, itself not stripped; the commands of the result are, in order, the
  segments of the text whose classification is not empty.
\<close>

theorem C4_command_as_split:
  "analyze_bash_history text d = Inr (res, d') \<longrightarrow>
     map command res = filter (\<lambda>c. classify c \<noteq> []) (segments text)"
  by (auto simp: analyze_flat dest: analyze_commands_kept)

text \<open>
  Claim C4, amended, at a text of two lines, the first ended by a carriage return.
\<close>

theorem C4_command_as_split_witness:
  "analyze_bash_history (''ls -la ; clear'' @ [carriage_return] @ '' cat notes ; '')
       \<lparr>objects = [main_entry]\<rparr>
     = Inr ([\<lparr>command = ''ls -la '', techniques = [Fresh placeholder]\<rparr>,
             \<lparr>command = ''cat notes '', techniques = [Fresh placeholder]\<rparr>,
             \<lparr>command = '''', techniques = [Fresh placeholder]\<rparr>],
            \<lparr>objects = [main_entry]\<rparr>)
   \<and> segments (''ls -la ; clear'' @ [carriage_return] @ '' cat notes ; '')
       = [''ls -la '', '' clear'', ''cat notes '', '''']
   \<and> map command [\<lparr>command = ''ls -la '', techniques = [Fresh placeholder]\<rparr>,
             \<lparr>command = ''cat notes '', techniques = [Fresh placeholder]\<rparr>,
             \<lparr>command = '''', techniques = [Fresh placeholder]\<rparr>]
       = filter (\<lambda>c. classify c \<noteq> [])
           (segments (''ls -la ; clear'' @ [carriage_return] @ '' cat notes ; ''))"
proof -
  have h: "analyze_bash_history (''ls -la ; clear'' @ [carriage_return] @ '' cat notes ; '')
       \<lparr>objects = [main_entry]\<rparr>
     = Inr ([\<lparr>command = ''ls -la '', techniques = [Fresh placeholder]\<rparr>,
             \<lparr>command = ''cat notes '', techniques = [Fresh placeholder]\<rparr>,
             \<lparr>command = '''', techniques = [Fresh placeholder]\<rparr>],
            \<lparr>objects = [main_entry]\<rparr>)"
    by code_simp
  have s: "segments (''ls -la ; clear'' @ [carriage_return] @ '' cat notes ; '')
       = [''ls -la '', '' clear'', ''cat notes '', '''']"
    by code_simp
  from C4_command_as_split [of "''ls -la ; clear'' @ [carriage_return] @ '' cat notes ; ''"
      "\<lparr>objects = [main_entry]\<rparr>"
      "[\<lparr>command = ''ls -la '', techniques = [Fresh placeholder]\<rparr>,
             \<lparr>command = ''cat notes '', techniques = [Fresh placeholder]\<rparr>,
             \<lparr>command = '''', techniques = [Fresh placeholder]\<rparr>]"
      "\<lparr>objects = [main_entry]\<rparr>"] h s
  show ?thesis by blast
qed

subsection \<open>C5\<close>

text \<open>
  Claim C5: \<^verbatim>\<open>cat /etc/passwd\<close> and \<^verbatim>\<open>cat /etc/sudoers\<close>
  are classified as T1005 followed by T1087, and \<^verbatim>\<open>cat foo.txt\<close> as T1005
  alone; every command that matches the \<^verbatim>\<open>cat\<close> pattern (\<^verbatim>\<open>cat\<close> with
  arguments) and contains neither \<^verbatim>\<open>passwd\<close> nor \<^verbatim>\<open>sudoers\<close> as a whole
  word is classified as T1005 alone, and every such command that contains one of the two as
  a whole word as T1005 followed by T1087.
\<close>

theorem C5_cat_rule:
  "classify ''cat /etc/passwd'' = [''T1005'', ''T1087'']
   \<and> classify ''cat /etc/sudoers'' = [''T1005'', ''T1087'']
   \<and> classify ''cat foo.txt'' = [''T1005'']
   \<and> (re_search rx_cat (strip c) \<and> \<not> whole_word ''passwd'' (strip c)
        \<and> \<not> whole_word ''sudoers'' (strip c) \<longrightarrow> classify c = [''T1005''])
   \<and> (re_search rx_cat (strip c)
        \<and> (whole_word ''passwd'' (strip c) \<or> whole_word ''sudoers'' (strip c))
       \<longrightarrow> classify c = [''T1005'', ''T1087''])"
proof (intro conjI impI)
  show "classify ''cat /etc/passwd'' = [''T1005'', ''T1087'']" by code_simp
  show "classify ''cat /etc/sudoers'' = [''T1005'', ''T1087'']" by code_simp
  show "classify ''cat foo.txt'' = [''T1005'']" by code_simp
next
  assume a: "re_search rx_cat (strip c) \<and> \<not> whole_word ''passwd'' (strip c)
        \<and> \<not> whole_word ''sudoers'' (strip c)"
  with cat_not_cd_ls [OF stripped_head, of c]
  show "classify c = [''T1005'']"
    by (simp add: classify_def passwd_whole_word sudoers_whole_word)
next
  assume a: "re_search rx_cat (strip c)
        \<and> (whole_word ''passwd'' (strip c) \<or> whole_word ''sudoers'' (strip c))"
  with cat_not_cd_ls [OF stripped_head, of c]
  show "classify c = [''T1005'', ''T1087'']"
    by (auto simp: classify_def Let_def passwd_whole_word sudoers_whole_word)
qed

text \<open>
  Claim C5 at a \<^verbatim>\<open>cat\<close> command in which
  \<^verbatim>\<open>passwd\<close> occurs inside a longer word only, and at one that names
  \<^verbatim>\<open>sudoers\<close> as a whole word.
\<close>

theorem C5_cat_rule_witness:
  "re_search rx_cat (strip ''  cat notes.md passwd_old '')
   \<and> \<not> whole_word ''passwd'' (strip ''  cat notes.md passwd_old '')
   \<and> \<not> whole_word ''sudoers'' (strip ''  cat notes.md passwd_old '')
   \<and> classify ''  cat notes.md passwd_old '' = [''T1005'']
   \<and> re_search rx_cat (strip ''cat -n /etc/sudoers.d/../sudoers'')
   \<and> whole_word ''sudoers'' (strip ''cat -n /etc/sudoers.d/../sudoers'')
   \<and> classify ''cat -n /etc/sudoers.d/../sudoers'' = [''T1005'', ''T1087'']"
proof -
  have h1: "re_search rx_cat (strip ''  cat notes.md passwd_old '')" by code_simp
  have "\<not> re_search rx_passwd (strip ''  cat notes.md passwd_old '')" by code_simp
  then have h2: "\<not> whole_word ''passwd'' (strip ''  cat notes.md passwd_old '')"
    by (simp add: passwd_whole_word)
  have "\<not> re_search rx_sudoers (strip ''  cat notes.md passwd_old '')" by code_simp
  then have h3: "\<not> whole_word ''sudoers'' (strip ''  cat notes.md passwd_old '')"
    by (simp add: sudoers_whole_word)
  have h4: "re_search rx_cat (strip ''cat -n /etc/sudoers.d/../sudoers'')" by code_simp
  have "re_search rx_sudoers (strip ''cat -n /etc/sudoers.d/../sudoers'')" by code_simp
  then have h5: "whole_word ''sudoers'' (strip ''cat -n /etc/sudoers.d/../sudoers'')"
    by (simp add: sudoers_whole_word)
  from C5_cat_rule [of "''  cat notes.md passwd_old ''"] h1 h2 h3
  have r1: "classify ''  cat notes.md passwd_old '' = [''T1005'']" by blast
  from C5_cat_rule [of "''cat -n /etc/sudoers.d/../sudoers''"] h4 h5
  have r2: "classify ''cat -n /etc/sudoers.d/../sudoers'' = [''T1005'', ''T1087'']" by blast
  from h1 h2 h3 h4 h5 r1 r2 show ?thesis by blast
qed

subsection \<open>C6\<close>



subsection \<open>C7\<close>

text \<open>
  Claim C7: the chain of branches of the classifier is first-match-wins dispatch over the
  ordered rule table; the first rule of the table whose pattern matches the stripped command
  gives the technique ids, whatever the rules after it; and
  \<^verbatim>\<open>sudo cat /etc/passwd\<close> receives the ids of the \<^verbatim>\<open>sudo\<close> rule alone.
\<close>

theorem C7_first_match_wins:
  "classify c = first_match_wins rule_table (strip c)
   \<and> (rule_table = pre @ (r, out) # post
        \<and> list_all (\<lambda>rule. \<not> re_search (fst rule) (strip c)) pre
        \<and> re_search r (strip c)
       \<longrightarrow> classify c = out (strip c))
   \<and> classify ''sudo cat /etc/passwd'' = [''T1078'']"
proof (intro conjI impI)
  show "classify c = first_match_wins rule_table (strip c)"
    by (rule classify_table)
  show "classify ''sudo cat /etc/passwd'' = [''T1078'']"
    by code_simp
  assume a: "rule_table = pre @ (r, out) # post
        \<and> list_all (\<lambda>rule. \<not> re_search (fst rule) (strip c)) pre
        \<and> re_search r (strip c)"
  then have "find (\<lambda>rule. re_search (fst rule) (strip c)) (pre @ (r, out) # post) = Some (r, out)"
    by (intro find_first) simp_all
  with a show "classify c = out (strip c)"
    by (simp add: classify_table first_match_wins_def)
qed

text \<open>
  Claim C7 at \<^verbatim>\<open>sudo cat /etc/passwd\<close>, whose first matching rule is
  the eighth.
\<close>

theorem C7_first_match_wins_witness:
  "rule_table = take 7 rule_table @ (rx_sudo, \<lambda>c. [''T1078'']) # drop 8 rule_table
   \<and> list_all (\<lambda>rule. \<not> re_search (fst rule) (strip ''sudo cat /etc/passwd'')) (take 7 rule_table)
   \<and> re_search rx_sudo (strip ''sudo cat /etc/passwd'')
   \<and> classify ''sudo cat /etc/passwd'' = [''T1078'']"
proof -
  have h1: "rule_table = take 7 rule_table @ (rx_sudo, \<lambda>c. [''T1078'']) # drop 8 rule_table"
    by (simp add: rule_table_def)
  have h2: "list_all (\<lambda>rule. \<not> re_search (fst rule) (strip ''sudo cat /etc/passwd''))
              (take 7 rule_table)"
    by code_simp
  have h3: "re_search rx_sudo (strip ''sudo cat /etc/passwd'')"
    by code_simp
  from C7_first_match_wins [of "''sudo cat /etc/passwd''" "take 7 rule_table" rx_sudo
      "\<lambda>c. [''T1078'']" "drop 8 rule_table"] h1 h2 h3
  show ?thesis by blast
qed

subsection \<open>C8\<close>

text \<open>
  Claim C8: a command that is empty or all whitespace is classified as the one-element list
  ``Unknown''; and whenever the analysis returns, the blank commands of its result are the
  blank segments of the text, each of them, in order, and each with one technique record.
\<close>

theorem C8_blank_commands_kept:
  "(list_all isspace c \<longrightarrow> classify c = [''Unknown''])
   \<and> (analyze_bash_history text d = Inr (res, d') \<longrightarrow>
        filter (list_all isspace) (map command res) = filter (list_all isspace) (segments text)
        \<and> list_all (\<lambda>r. list_all isspace (command r) \<longrightarrow> length (techniques r) = 1) res)"
proof (intro conjI impI)
  assume "list_all isspace c"
  then show "classify c = [''Unknown'']" by (rule classify_blank)
next
  assume a: "analyze_bash_history text d = Inr (res, d')"
  then have "map command res = filter (\<lambda>c. classify c \<noteq> []) (segments text)"
    by (auto simp: analyze_flat dest: analyze_commands_kept)
  then have "filter (list_all isspace) (map command res)
      = filter (\<lambda>c. classify c \<noteq> [] \<and> list_all isspace c) (segments text)"
    by (simp add: conj_commute)
  also have "\<dots> = filter (list_all isspace) (segments text)"
    by (rule filter_cong) (auto simp: classify_blank)
  finally show "filter (list_all isspace) (map command res)
      = filter (list_all isspace) (segments text)" .
next
  assume a: "analyze_bash_history text d = Inr (res, d')"
  then have "analyze_commands (segments text) [] d = Inr (res, d')"
    by (simp add: analyze_flat)
  then have "list_all (\<lambda>r. length (techniques r) = length (classify (command r))) res"
    by (rule analyze_commands_techniques) simp
  then show "list_all (\<lambda>r. list_all isspace (command r) \<longrightarrow> length (techniques r) = 1) res"
    by (auto simp: list_all_iff classify_blank)
qed

text \<open>
  Claim C8 at a text whose first line ends with a semicolon and a carriage return and is
  followed by an empty line.
\<close>

theorem C8_blank_commands_kept_witness:
  "list_all isspace '' ''
   \<and> classify '' '' = [''Unknown'']
   \<and> analyze_bash_history (''clear; ;'' @ [carriage_return, carriage_return] @ ''ls'' @ [newline])
         \<lparr>objects = [main_entry]\<rparr>
       = Inr ([\<lparr>command = '' '', techniques = [Fresh placeholder]\<rparr>,
               \<lparr>command = '''', techniques = [Fresh placeholder]\<rparr>,
               \<lparr>command = '''', techniques = [Fresh placeholder]\<rparr>,
               \<lparr>command = ''ls'', techniques = [Fresh placeholder]\<rparr>],
              \<lparr>objects = [main_entry]\<rparr>)
   \<and> segments (''clear; ;'' @ [carriage_return, carriage_return] @ ''ls'' @ [newline])
       = [''clear'', '' '', '''', '''', ''ls'']
   \<and> filter (list_all isspace)
         (map command [\<lparr>command = '' '', techniques = [Fresh placeholder]\<rparr>,
               \<lparr>command = '''', techniques = [Fresh placeholder]\<rparr>,
               \<lparr>command = '''', techniques = [Fresh placeholder]\<rparr>,
               \<lparr>command = ''ls'', techniques = [Fresh placeholder]\<rparr>])
       = filter (list_all isspace)
           (segments (''clear; ;'' @ [carriage_return, carriage_return] @ ''ls'' @ [newline]))"
proof -
  have h1: "list_all isspace '' ''"
    by code_simp
  have h2: "analyze_bash_history (''clear; ;'' @ [carriage_return, carriage_return] @ ''ls'' @ [newline])
         \<lparr>objects = [main_entry]\<rparr>
       = Inr ([\<lparr>command = '' '', techniques = [Fresh placeholder]\<rparr>,
               \<lparr>command = '''', techniques = [Fresh placeholder]\<rparr>,
               \<lparr>command = '''', techniques = [Fresh placeholder]\<rparr>,
               \<lparr>command = ''ls'', techniques = [Fresh placeholder]\<rparr>],
              \<lparr>objects = [main_entry]\<rparr>)"
    by code_simp
  have h3: "segments (''clear; ;'' @ [carriage_return, carriage_return] @ ''ls'' @ [newline])
       = [''clear'', '' '', '''', '''', ''ls'']"
    by code_simp
  from C8_blank_commands_kept [of "'' ''"
      "''clear; ;'' @ [carriage_return, carriage_return] @ ''ls'' @ [newline]"
      "\<lparr>objects = [main_entry]\<rparr>"
      "[\<lparr>command = '' '', techniques = [Fresh placeholder]\<rparr>,
               \<lparr>command = '''', techniques = [Fresh placeholder]\<rparr>,
               \<lparr>command = '''', techniques = [Fresh placeholder]\<rparr>,
               \<lparr>command = ''ls'', techniques = [Fresh placeholder]\<rparr>]"
      "\<lparr>objects = [main_entry]\<rparr>"] h1 h2 h3
  show ?thesis by blast
qed

subsection \<open>C9\<close>

text \<open>
  Claim C9: every record that the resolver returns has a non-empty list of solutions; when the
  matched entry has no solutions, the list is the one element that is the description of the
  entry, or ``No description available.'' when the entry has no description.
\<close>

theorem C9_solutions_nonempty:
  "resolve t d = Inr (i, d') \<longrightarrow>
     (\<exists>s ss. solutions (deref d' i) = Some (s # ss))
     \<and> (\<forall>k. first_entry t (objects d) = Inr (Some k) \<and> no_solutions (objects d ! k) \<longrightarrow>
           i = Shared k
           \<and> solutions (deref d' i)
               = Some [case description (objects d ! k) of
                         None \<Rightarrow> ''No description available.'' | Some x \<Rightarrow> x])"
proof
  assume r: "resolve t d = Inr (i, d')"
  show "(\<exists>s ss. solutions (deref d' i) = Some (s # ss))
     \<and> (\<forall>k. first_entry t (objects d) = Inr (Some k) \<and> no_solutions (objects d ! k) \<longrightarrow>
           i = Shared k
           \<and> solutions (deref d' i)
               = Some [case description (objects d ! k) of
                         None \<Rightarrow> ''No description available.'' | Some x \<Rightarrow> x])"
  proof (cases "first_entry t (objects d)")
    case (Inl e)
    with r show ?thesis by (simp add: resolve_cases)
  next
    case (Inr found)
    show ?thesis
    proof (cases found)
      case None
      with Inr r show ?thesis
        by (auto simp: resolve_cases deref_def placeholder_def)
    next
      case (Some k)
      with Inr have "k < length (objects d)"
        by (simp add: first_entry_bound)
      with Some Inr r show ?thesis
        by (cases "solutions (objects d ! k)"; cases "the (solutions (objects d ! k))")
           (auto simp: resolve_cases deref_def no_solutions_def fallback_solutions_def
                 split: if_splits)
    qed
  qed
qed

text \<open>Claim C9 at an entry T1078 without solutions.\<close>

theorem C9_solutions_nonempty_witness:
  "resolve ''T1078'' \<lparr>objects = [main_entry, valid_entry]\<rparr>
     = Inr (Shared 1, \<lparr>objects = [main_entry, valid_entry\<lparr>solutions := Some [''Use of existing accounts.'']\<rparr>]\<rparr>)
   \<and> first_entry ''T1078'' (objects \<lparr>objects = [main_entry, valid_entry]\<rparr>) = Inr (Some 1)
   \<and> no_solutions (objects \<lparr>objects = [main_entry, valid_entry]\<rparr> ! 1)
   \<and> description (objects \<lparr>objects = [main_entry, valid_entry]\<rparr> ! 1) = Some ''Use of existing accounts.''
   \<and> solutions (deref \<lparr>objects = [main_entry, valid_entry\<lparr>solutions := Some [''Use of existing accounts.'']\<rparr>]\<rparr> (Shared 1))
       = Some [''Use of existing accounts.'']"
proof -
  have h1: "resolve ''T1078'' \<lparr>objects = [main_entry, valid_entry]\<rparr>
     = Inr (Shared 1, \<lparr>objects = [main_entry, valid_entry\<lparr>solutions := Some [''Use of existing accounts.'']\<rparr>]\<rparr>)"
    by code_simp
  have h2: "first_entry ''T1078'' (objects \<lparr>objects = [main_entry, valid_entry]\<rparr>) = Inr (Some 1)"
    by code_simp
  have h3: "no_solutions (objects \<lparr>objects = [main_entry, valid_entry]\<rparr> ! 1)"
    by code_simp
  have h4: "description (objects \<lparr>objects = [main_entry, valid_entry]\<rparr> ! 1) = Some ''Use of existing accounts.''"
    by code_simp
  from C9_solutions_nonempty [of "''T1078''" "\<lparr>objects = [main_entry, valid_entry]\<rparr>" "Shared 1"
      "\<lparr>objects = [main_entry, valid_entry\<lparr>solutions := Some [''Use of existing accounts.'']\<rparr>]\<rparr>"]
    h1 h2 h3
  have "solutions (deref \<lparr>objects = [main_entry, valid_entry\<lparr>solutions := Some [''Use of existing accounts.'']\<rparr>]\<rparr> (Shared 1))
       = Some [case description (objects \<lparr>objects = [main_entry, valid_entry]\<rparr> ! 1) of
                         None \<Rightarrow> ''No description available.'' | Some x \<Rightarrow> x]"
    by blast
  with h1 h2 h3 h4 show ?thesis by simp
qed

subsection \<open>C10\<close>

text \<open>
  Claim C10 as stated fails: when an entry before the entry with the empty list of external
  references matches, the lookup stops there; resolution returns that entry and the analysis
  completes.
\<close>

theorem C10_counterexample:
  "external_references bad_entry = Some []
   \<and> resolve ''T1078'' \<lparr>objects = [valid_entry\<lparr>solutions := Some [''Audit'']\<rparr>, bad_entry]\<rparr>
       = Inr (Shared 0, \<lparr>objects = [valid_entry\<lparr>solutions := Some [''Audit'']\<rparr>, bad_entry]\<rparr>)
   \<and> analyze_bash_history ''whoami'' \<lparr>objects = [valid_entry\<lparr>solutions := Some [''Audit'']\<rparr>, bad_entry]\<rparr>
       = Inr ([\<lparr>command = ''whoami'', techniques = [Shared 0]\<rparr>],
              \<lparr>objects = [valid_entry\<lparr>solutions := Some [''Audit'']\<rparr>, bad_entry]\<rparr>)"
  by code_simp

text \<open>
  Claim C10, amended: when an entry has an empty list of external references and no entry
  before it matches the id, looking the id up raises IndexError, whatever follows that
  entry; when an entry matches and the entries before it are inspected without error and
  passed over, that entry is returned, whatever follows it; and when the lookup of a
  technique id raises IndexError, the analysis of every text with a command that is
  classified with that id is aborted with IndexError.
\<close>

theorem C10_empty_references_raise:
  "(objects d = pre @ bad # post \<and> external_references bad = Some []
      \<and> list_all (\<lambda>it. \<not> matched t it) pre
     \<longrightarrow> resolve t d = Inl IndexError)
   \<and> (objects d = pre @ it # post \<and> list_all (unmatched t) pre \<and> matched t it
     \<longrightarrow> (\<exists>d'. resolve t d = Inr (Shared (length pre), d')))
   \<and> (resolve t d = Inl IndexError \<and> c \<in> set (segments text) \<and> t \<in> set (classify c)
     \<longrightarrow> analyze_bash_history text d = Inl IndexError)"
proof (intro conjI impI)
  assume "objects d = pre @ bad # post \<and> external_references bad = Some []
      \<and> list_all (\<lambda>it. \<not> matched t it) pre"
  then show "resolve t d = Inl IndexError"
    by (simp add: resolve_cases first_entry_raises)
next
  assume a: "objects d = pre @ it # post \<and> list_all (unmatched t) pre \<and> matched t it"
  then obtain x where "primary_id it = Inr x" and "str_in t x"
    by (auto simp: matched_def split: sum.splits)
  with a have "first_entry t (objects d) = Inr (Some (length pre))"
    by (simp add: first_entry_append)
  then show "\<exists>d'. resolve t d = Inr (Shared (length pre), d')"
    by (simp add: resolve_cases)
next
  assume a: "resolve t d = Inl IndexError \<and> c \<in> set (segments text) \<and> t \<in> set (classify c)"
  then have "analyze_commands (segments text) [] d = Inl IndexError"
    by (intro analyze_commands_raises [where d = d and t = t and c = c]) (auto simp: filled_refl)
  then show "analyze_bash_history text d = Inl IndexError"
    by (simp add: analyze_flat)
qed

text \<open>
  Claim C10, amended, at reference data whose second entry has an empty list of external
  references, and at a text whose third command is the one that reaches it.
\<close>

theorem C10_empty_references_raise_witness:
  "objects \<lparr>objects = [valid_entry, bad_entry, main_entry]\<rparr> = [valid_entry] @ bad_entry # [main_entry]
   \<and> external_references bad_entry = Some []
   \<and> list_all (\<lambda>it. \<not> matched ''T1083'' it) [valid_entry]
   \<and> resolve ''T1083'' \<lparr>objects = [valid_entry, bad_entry, main_entry]\<rparr> = Inl IndexError
   \<and> objects \<lparr>objects = [valid_entry, bad_entry, main_entry]\<rparr> = [] @ valid_entry # [bad_entry, main_entry]
   \<and> list_all (unmatched ''T1078'') [] \<and> matched ''T1078'' valid_entry
   \<and> (\<exists>d'. resolve ''T1078'' \<lparr>objects = [valid_entry, bad_entry, main_entry]\<rparr>
              = Inr (Shared (length ([] :: item list)), d'))
   \<and> '' ls'' \<in> set (segments ''whoami; clear; ls'')
   \<and> ''T1083'' \<in> set (classify '' ls'')
   \<and> analyze_bash_history ''whoami; clear; ls'' \<lparr>objects = [valid_entry, bad_entry, main_entry]\<rparr>
       = Inl IndexError"
proof -
  have h1: "objects \<lparr>objects = [valid_entry, bad_entry, main_entry]\<rparr>
      = [valid_entry] @ bad_entry # [main_entry]"
    by simp
  have h2: "external_references bad_entry = Some []"
    by code_simp
  have h3: "list_all (\<lambda>it. \<not> matched ''T1083'' it) [valid_entry]"
    by code_simp
  have h4: "objects \<lparr>objects = [valid_entry, bad_entry, main_entry]\<rparr>
      = [] @ valid_entry # [bad_entry, main_entry]"
    by simp
  have h5: "list_all (unmatched ''T1078'') [] \<and> matched ''T1078'' valid_entry"
    by code_simp
  have h6: "'' ls'' \<in> set (segments ''whoami; clear; ls'')"
    by code_simp
  have h7: "''T1083'' \<in> set (classify '' ls'')"
    by code_simp
  note a = C10_empty_references_raise [of "\<lparr>objects = [valid_entry, bad_entry, main_entry]\<rparr>"
      "[valid_entry]" bad_entry "[main_entry]" "''T1083''" _ "'' ls''" "''whoami; clear; ls''"]
  note b = C10_empty_references_raise [of "\<lparr>objects = [valid_entry, bad_entry, main_entry]\<rparr>"
      "[]" _ "[bad_entry, main_entry]" "''T1078''" valid_entry]
  from a h1 h2 h3
  have r: "resolve ''T1083'' \<lparr>objects = [valid_entry, bad_entry, main_entry]\<rparr> = Inl IndexError"
    by blast
  from a r h6 h7
  have an: "analyze_bash_history ''whoami; clear; ls'' \<lparr>objects = [valid_entry, bad_entry, main_entry]\<rparr>
      = Inl IndexError"
    by blast
  from b h4 h5
  have ok: "\<exists>d'. resolve ''T1078'' \<lparr>objects = [valid_entry, bad_entry, main_entry]\<rparr>
      = Inr (Shared (length ([] :: item list)), d')"
    by blast
  from h1 h2 h3 r h4 h5 ok h6 h7 an show ?thesis by blast
qed

end
